theory Spec2Isabelle
  imports Main
begin

section \<open>Python values used by the chunking engine\<close>

text \<open>
  A Python \<^verbatim>\<open>str\<close> is a sequence of Unicode code points, so a string is a list of
  natural numbers here; \<open>py\<close> turns an ASCII literal into that representation.
  \<^verbatim>\<open>len\<close> returns an unbounded integer.
\<close>

type_synonym pystr = "nat list"

definition py :: "string \<Rightarrow> pystr" where
  "py s = map of_char s"

definition len :: "'a list \<Rightarrow> int" where
  "len xs = int (length xs)"

text \<open>
  The code points for which \<^verbatim>\<open>str.isspace\<close> holds; \<^verbatim>\<open>str.strip\<close>,
  \<^verbatim>\<open>str.lstrip\<close>, \<^verbatim>\<open>str.rstrip\<close> and the regular expression class
  \<^verbatim>\<open>\s\<close> on a \<^verbatim>\<open>str\<close> pattern all use this set.
\<close>

definition isspace :: "nat \<Rightarrow> bool" where
  "isspace c \<longleftrightarrow>
     (9 \<le> c \<and> c \<le> 13) \<or> (28 \<le> c \<and> c \<le> 32) \<or> c = 133 \<or> c = 160 \<or> c = 5760 \<or>
     (8192 \<le> c \<and> c \<le> 8202) \<or> c = 8232 \<or> c = 8233 \<or> c = 8239 \<or> c = 8287 \<or> c = 12288"

definition lstrip :: "pystr \<Rightarrow> pystr" where
  "lstrip s = dropWhile isspace s"

definition rstrip :: "pystr \<Rightarrow> pystr" where
  "rstrip s = rev (dropWhile isspace (rev s))"

definition strip :: "pystr \<Rightarrow> pystr" where
  "strip s = lstrip (rstrip s)"

definition startswith :: "pystr \<Rightarrow> pystr \<Rightarrow> bool" where
  "startswith s p \<longleftrightarrow> take (length p) s = p"

definition join :: "pystr list \<Rightarrow> pystr" where
  "join parts = concat parts"

datatype py_error = IndexError

text \<open>\<^verbatim>\<open>xs[i]\<close>: a negative index counts from the end, an index out of range raises.\<close>

definition getitem :: "'a list \<Rightarrow> int \<Rightarrow> py_error + 'a" where
  "getitem xs i =
     (let n = len xs; j = (if i < 0 then i + n else i)
      in if 0 \<le> j \<and> j < n then Inr (xs ! nat j) else Inl IndexError)"

text \<open>\<^verbatim>\<open>xs[a:b]\<close>: both bounds are clamped into the list, a negative bound counts from the end.\<close>

definition slice :: "'a list \<Rightarrow> int \<Rightarrow> int \<Rightarrow> 'a list" where
  "slice xs a b =
     (let n = len xs;
          lo = (if a < 0 then max (a + n) 0 else min a n);
          hi = (if b < 0 then max (b + n) 0 else min b n)
      in take (nat (hi - lo)) (drop (nat lo) xs))"

section \<open>Language classifier\<close>

definition EXT_LANG_MAP :: "(pystr \<times> pystr) list" where
  "EXT_LANG_MAP =
     [(py ''.py'', py ''python''),
      (py ''.js'', py ''javascript''),
      (py ''.jsx'', py ''javascript''),
      (py ''.ts'', py ''typescript''),
      (py ''.tsx'', py ''typescript''),
      (py ''.json'', py ''json''),
      (py ''.md'', py ''markdown''),
      (py ''.toml'', py ''toml''),
      (py ''.yml'', py ''yaml''),
      (py ''.yaml'', py ''yaml''),
      (py ''.cfg'', py ''ini''),
      (py ''.ini'', py ''ini''),
      (py ''.txt'', py ''text'')]"

text \<open>
  \<^verbatim>\<open>detect_language_from_path\<close> after pathlib has produced the lower-cased suffix
  \<open>ext\<close> of the path: the table lookup with its default.
\<close>

definition detect_language_from_ext :: "pystr \<Rightarrow> pystr" where
  "detect_language_from_ext ext =
     (case map_of EXT_LANG_MAP ext of Some lang \<Rightarrow> lang | None \<Rightarrow> py ''text'')"

section \<open>Boundary detector\<close>

text \<open>
  The two compiled patterns, applied with \<^verbatim>\<open>pattern.match\<close> to a left-stripped line.
  \<^verbatim>\<open>^(def |class )\<close> is a prefix test. In
  \<^verbatim>\<open>^(export\s+)?(function |class |const |let |var )\<close> no keyword starts with white
  space or with \<^verbatim>\<open>export\<close>, so the optional group either consumes \<^verbatim>\<open>export\<close> and
  the whole following run of white space (at least one character) or nothing.
\<close>

definition python_pattern :: "pystr \<Rightarrow> bool" where
  "python_pattern s \<longleftrightarrow> startswith s (py ''def '') \<or> startswith s (py ''class '')"

definition js_keyword :: "pystr \<Rightarrow> bool" where
  "js_keyword s \<longleftrightarrow>
     startswith s (py ''function '') \<or> startswith s (py ''class '') \<or>
     startswith s (py ''const '') \<or> startswith s (py ''let '') \<or> startswith s (py ''var '')"

definition js_pattern :: "pystr \<Rightarrow> bool" where
  "js_pattern s \<longleftrightarrow>
     (startswith s (py ''export'') \<and>
      (case drop 6 s of [] \<Rightarrow> False
       | c # r \<Rightarrow> isspace c \<and> js_keyword (dropWhile isspace r))) \<or>
     js_keyword s"

text \<open>The \<^verbatim>\<open>if\<close>/\<^verbatim>\<open>elif\<close>/\<^verbatim>\<open>else\<close> on the language tag: \<open>None\<close> is the fallback branch.\<close>

definition language_pattern :: "pystr \<Rightarrow> (pystr \<Rightarrow> bool) option" where
  "language_pattern lang =
     (if lang = py ''python'' then Some python_pattern
      else if lang = py ''javascript'' \<or> lang = py ''typescript'' then Some js_pattern
      else None)"

text \<open>The fallback loop \<^verbatim>\<open>for i in range(0, n, size)\<close> with \<^verbatim>\<open>size = 200\<close>.\<close>

function fixed_blocks :: "int \<Rightarrow> int \<Rightarrow> (int \<times> int) list" where
  "fixed_blocks i n = (if i < n then (i, min (i + 200) n) # fixed_blocks (i + 200) n else [])"
  by pat_completeness auto
termination
  by (relation "measure (\<lambda>(i, n). nat (n - i))") auto

text \<open>The loop over \<^verbatim>\<open>enumerate(lines)\<close> that collects the indices of matching lines.\<close>

fun find_indices :: "(pystr \<Rightarrow> bool) \<Rightarrow> int \<Rightarrow> pystr list \<Rightarrow> int list" where
  "find_indices pattern i [] = []"
| "find_indices pattern i (line # rest) =
     (if pattern (lstrip line) then i # find_indices pattern (i + 1) rest
      else find_indices pattern (i + 1) rest)"

text \<open>The test \<^verbatim>\<open>lines[j].lstrip().startswith("@")\<close> on a line.\<close>

definition is_decorator :: "pystr \<Rightarrow> bool" where
  "is_decorator line \<longleftrightarrow> startswith (lstrip line) (py ''@'')"

text \<open>
  The decorator walk
  \<^verbatim>\<open>while j >= 0 and lines[j].lstrip().startswith("@"): j -= 1\<close>; the result is the
  final \<open>j\<close>.
\<close>

function walk_back :: "pystr list \<Rightarrow> int \<Rightarrow> py_error + int" where
  "walk_back lines j =
     (if j \<ge> 0 then
        (case getitem lines j of
           Inl err \<Rightarrow> Inl err
         | Inr line \<Rightarrow>
             if is_decorator line then walk_back lines (j - 1) else Inr j)
      else Inr j)"
  by pat_completeness auto
termination
  by (relation "measure (\<lambda>(lines, j). nat (j + 1))") auto

text \<open>
  The loop over \<^verbatim>\<open>enumerate(indices)\<close>: the block of a start index ends at the next
  index (\<^verbatim>\<open>indices[i + 1]\<close>) when there is one and at \<^verbatim>\<open>len(lines)\<close> otherwise.
\<close>

fun build_ranges :: "pystr list \<Rightarrow> pystr \<Rightarrow> int list \<Rightarrow> py_error + (int \<times> int) list" where
  "build_ranges lines lang [] = Inr []"
| "build_ranges lines lang (start # rest) =
     (let end_ix = (case rest of [] \<Rightarrow> len lines | nxt # _ \<Rightarrow> nxt) in
      case (if lang = py ''python''
            then (case walk_back lines (start - 1) of
                    Inl err \<Rightarrow> Inl err | Inr j \<Rightarrow> Inr (j + 1))
            else Inr start) of
        Inl err \<Rightarrow> Inl err
      | Inr start' \<Rightarrow>
          (case build_ranges lines lang rest of
             Inl err \<Rightarrow> Inl err
           | Inr boundaries \<Rightarrow> Inr ((start', end_ix) # boundaries)))"

definition find_code_block_boundaries :: "pystr list \<Rightarrow> pystr \<Rightarrow> py_error + (int \<times> int) list" where
  "find_code_block_boundaries lines lang =
     (case language_pattern lang of
        None \<Rightarrow> Inr (fixed_blocks 0 (len lines))
      | Some pattern \<Rightarrow>
          (let indices = find_indices pattern 0 lines in
           if indices = [] then Inr [(0, len lines)]
           else
             (case build_ranges lines lang indices of
                Inl err \<Rightarrow> Inl err
              | Inr boundaries \<Rightarrow>
                  Inr (case boundaries of
                         [] \<Rightarrow> boundaries
                       | (s0, _) # _ \<Rightarrow>
                           if s0 > 0 then (0, s0) # boundaries else boundaries))))"

section \<open>Chunk assembler\<close>

record document =
  page_content :: pystr
  path :: pystr
  filename :: pystr
  language :: pystr
  chunk_type :: pystr
  line_start :: int
  line_end :: int

definition chunk_type_of :: "pystr \<Rightarrow> pystr" where
  "chunk_type_of lang =
     (if lang \<notin> set [py ''markdown'', py ''text'', py ''json'', py ''toml'', py ''yaml'']
      then py ''code'' else py ''prose'')"

text \<open>
  The inner \<^verbatim>\<open>while cur < end\<close> loop of \<^verbatim>\<open>create_documents_from_file\<close> for one
  boundary, threading the list \<open>docs\<close>. With \<open>chunk_max_lines \<le> 0\<close> the loop never
  leaves a non-empty range, so the result is an option: \<open>None\<close> is a run that does not
  return. \<open>fname\<close> stands for \<^verbatim>\<open>Path(path).name\<close>.
\<close>

partial_function (option) chunk_loop ::
  "pystr \<Rightarrow> pystr \<Rightarrow> pystr \<Rightarrow> pystr list \<Rightarrow> int \<Rightarrow> int \<Rightarrow> int \<Rightarrow> document list
     \<Rightarrow> document list option" where
  "chunk_loop pth fname lang lines chunk_max_lines cur end_ix docs =
     (if cur < end_ix then
        (let chunk_end = min (cur + chunk_max_lines) end_ix;
             chunk_lines = slice lines cur chunk_end;
             content = rstrip (join chunk_lines)
         in if strip content = [] then
              chunk_loop pth fname lang lines chunk_max_lines chunk_end end_ix docs
            else
              chunk_loop pth fname lang lines chunk_max_lines chunk_end end_ix
                (docs @ [\<lparr>page_content = content, path = pth, filename = fname,
                          language = lang, chunk_type = chunk_type_of lang,
                          line_start = cur + 1, line_end = chunk_end\<rparr>]))
      else Some docs)"

declare chunk_loop.simps [code]

text \<open>The outer \<^verbatim>\<open>for start, end in boundaries\<close> loop.\<close>

fun block_loop ::
  "pystr \<Rightarrow> pystr \<Rightarrow> pystr \<Rightarrow> pystr list \<Rightarrow> int \<Rightarrow> (int \<times> int) list \<Rightarrow> document list
     \<Rightarrow> document list option" where
  "block_loop pth fname lang lines chunk_max_lines [] docs = Some docs"
| "block_loop pth fname lang lines chunk_max_lines ((start, end_ix) # rest) docs =
     (case chunk_loop pth fname lang lines chunk_max_lines start end_ix docs of
        None \<Rightarrow> None
      | Some docs' \<Rightarrow> block_loop pth fname lang lines chunk_max_lines rest docs')"

text \<open>
  \<^verbatim>\<open>create_documents_from_file\<close> after the classifier and the reader have run: \<open>lang\<close>
  is the detected language and \<open>lines\<close> the lines read. \<open>Some (Inl err)\<close> is a raised
  error, \<open>Some (Inr docs)\<close> the returned list.
\<close>

definition create_documents_from_file ::
  "pystr \<Rightarrow> pystr \<Rightarrow> pystr \<Rightarrow> pystr list \<Rightarrow> int \<Rightarrow> (py_error + document list) option" where
  "create_documents_from_file pth fname lang lines chunk_max_lines =
     (case find_code_block_boundaries lines lang of
        Inl err \<Rightarrow> Some (Inl err)
      | Inr boundaries \<Rightarrow>
          map_option Inr (block_loop pth fname lang lines chunk_max_lines boundaries []))"

section \<open>The states of the window loop\<close>

text \<open>
  The pairs \<open>(cur, chunk_end)\<close> that the \<^verbatim>\<open>while\<close> loop goes through on the
  range from \<open>cur\<close> to \<open>end_ix\<close> when it returns, the content it builds for such a
  pair, and the document it appends when that content is not blank.
\<close>

function windows :: "int \<Rightarrow> int \<Rightarrow> int \<Rightarrow> (int \<times> int) list" where
  "windows m cur end_ix =
     (if cur < end_ix \<and> 1 \<le> m
      then (cur, min (cur + m) end_ix) # windows m (min (cur + m) end_ix) end_ix
      else [])"
  by pat_completeness auto
termination
  by (relation "measure (\<lambda>(m, cur, end_ix). nat (end_ix - cur))") auto

definition window_content :: "pystr list \<Rightarrow> int \<times> int \<Rightarrow> pystr" where
  "window_content lines w = rstrip (join (slice lines (fst w) (snd w)))"

definition window_doc :: "pystr \<Rightarrow> pystr \<Rightarrow> pystr \<Rightarrow> pystr list \<Rightarrow> int \<times> int \<Rightarrow> document" where
  "window_doc pth fname lang lines w =
     \<lparr>page_content = window_content lines w, path = pth, filename = fname,
      language = lang, chunk_type = chunk_type_of lang,
      line_start = fst w + 1, line_end = snd w\<rparr>"

definition emitted ::
  "pystr \<Rightarrow> pystr \<Rightarrow> pystr \<Rightarrow> pystr list \<Rightarrow> int \<Rightarrow> int \<times> int \<Rightarrow> document list" where
  "emitted pth fname lang lines m b =
     map (window_doc pth fname lang lines)
       (filter (\<lambda>w. strip (window_content lines w) \<noteq> []) (windows m (fst b) (snd b)))"

text \<open>The start of the block of a detected index, once the decorator walk has returned.\<close>

definition block_start :: "pystr list \<Rightarrow> pystr \<Rightarrow> int \<Rightarrow> int" where
  "block_start lines lang i =
     (if lang = py ''python'' then projr (walk_back lines (i - 1)) + 1 else i)"

text \<open>The blocks that the loop over the detected indices \<open>idx\<close> appends.\<close>

definition blocks_of :: "pystr list \<Rightarrow> pystr \<Rightarrow> int list \<Rightarrow> (int \<times> int) list" where
  "blocks_of lines lang idx = zip (map (block_start lines lang) idx) (tl idx @ [len lines])"

section \<open>Auxiliary facts\<close>

declare fixed_blocks.simps [simp del]
declare walk_back.simps [simp del]
declare windows.simps [simp del]

subsection \<open>Strings\<close>

lemma rstrip_Nil_iff: "rstrip s = [] \<longleftrightarrow> (\<forall>c\<in>set s. isspace c)"
  by (simp add: rstrip_def dropWhile_eq_Nil_conv)

lemma rstrip_last: "rstrip s \<noteq> [] \<Longrightarrow> \<not> isspace (last (rstrip s))"
proof -
  assume ne: "rstrip s \<noteq> []"
  then have d: "dropWhile isspace (rev s) \<noteq> []" by (simp add: rstrip_def)
  then have "\<not> isspace (hd (dropWhile isspace (rev s)))" by (rule hd_dropWhile)
  with d show ?thesis by (simp add: rstrip_def last_rev)
qed

lemma set_rstrip: "set (rstrip s) \<subseteq> set s"
  using set_dropWhileD [of _ isspace "rev s"] by (auto simp: rstrip_def)

lemma strip_Nil_iff: "strip s = [] \<longleftrightarrow> (\<forall>c\<in>set s. isspace c)"
proof
  assume "strip s = []"
  then have all: "\<forall>c\<in>set (rstrip s). isspace c"
    by (simp add: strip_def lstrip_def dropWhile_eq_Nil_conv)
  have "rstrip s = []"
  proof (rule ccontr)
    assume ne: "rstrip s \<noteq> []"
    then have "last (rstrip s) \<in> set (rstrip s)" by simp
    with all rstrip_last [OF ne] show False by blast
  qed
  then show "\<forall>c\<in>set s. isspace c" by (simp add: rstrip_Nil_iff)
next
  assume "\<forall>c\<in>set s. isspace c"
  then have "rstrip s = []" by (simp add: rstrip_Nil_iff)
  then show "strip s = []" by (simp add: strip_def lstrip_def)
qed

lemma rstrip_idem: "rstrip (rstrip s) = rstrip s"
proof (cases "rstrip s = []")
  case True
  then show ?thesis by (simp add: rstrip_def)
next
  case False
  then have d: "dropWhile isspace (rev s) \<noteq> []" by (simp add: rstrip_def)
  then have "\<not> isspace (hd (dropWhile isspace (rev s)))" by (rule hd_dropWhile)
  with d have "dropWhile isspace (dropWhile isspace (rev s)) = dropWhile isspace (rev s)"
    by (cases "dropWhile isspace (rev s)") auto
  then show ?thesis by (simp add: rstrip_def)
qed

lemma blank_content_iff:
  "strip (rstrip (join ls)) = [] \<longleftrightarrow> (\<forall>l\<in>set ls. \<forall>c\<in>set l. isspace c)"
proof -
  have "strip (rstrip (join ls)) = [] \<longleftrightarrow> rstrip (join ls) = []"
    using strip_Nil_iff [of "rstrip (join ls)"] rstrip_Nil_iff [of "rstrip (join ls)"]
    by (simp add: rstrip_idem)
  then show ?thesis by (auto simp: rstrip_Nil_iff join_def)
qed

subsection \<open>Slices\<close>

lemma slice_in_range:
  "0 \<le> a \<Longrightarrow> a \<le> b \<Longrightarrow> b \<le> len xs \<Longrightarrow> slice xs a b = take (nat (b - a)) (drop (nat a) xs)"
  by (simp add: slice_def len_def Let_def min_def)

lemma slice_whole: "slice xs 0 (len xs) = xs"
  by (simp add: slice_def len_def)

lemma set_slice:
  assumes "0 \<le> a" "a \<le> b" "b \<le> len xs"
  shows "set (slice xs a b) = {xs ! nat i | i. a \<le> i \<and> i < b}"
proof -
  have "set (take (nat (b - a)) (drop (nat a) xs)) = {xs ! nat i | i. a \<le> i \<and> i < b}"
  proof (intro set_eqI iffI)
    fix x assume "x \<in> set (take (nat (b - a)) (drop (nat a) xs))"
    then obtain k where k: "k < nat (b - a)" "k < length xs - nat a" "x = xs ! (nat a + k)"
      by (auto simp: in_set_conv_nth)
    then have "x = xs ! nat (a + int k)" "a \<le> a + int k" "a + int k < b"
      using assms by (auto simp: nat_add_distrib)
    then show "x \<in> {xs ! nat i | i. a \<le> i \<and> i < b}" by blast
  next
    fix x assume "x \<in> {xs ! nat i | i. a \<le> i \<and> i < b}"
    then obtain i where i: "a \<le> i" "i < b" "x = xs ! nat i" by blast
    let ?k = "nat (i - a)"
    have "?k < length (take (nat (b - a)) (drop (nat a) xs))"
      using i assms by (auto simp: len_def)
    moreover have "take (nat (b - a)) (drop (nat a) xs) ! ?k = x"
      using i assms by (auto simp: len_def nat_add_distrib [symmetric])
    ultimately show "x \<in> set (take (nat (b - a)) (drop (nat a) xs))"
      by (metis nth_mem)
  qed
  with assms show ?thesis by (simp add: slice_in_range)
qed

subsection \<open>The window loop\<close>

lemma windows_unfold:
  "cur < e \<Longrightarrow> 1 \<le> m \<Longrightarrow> windows m cur e = (cur, min (cur + m) e) # windows m (min (cur + m) e) e"
  by (subst windows.simps) simp

lemma windows_Nil: "\<not> (cur < e \<and> 1 \<le> m) \<Longrightarrow> windows m cur e = []"
  by (subst windows.simps) simp

lemma windows_Nil_iff: "windows m cur e = [] \<longleftrightarrow> \<not> (cur < e \<and> 1 \<le> m)"
  by (subst windows.simps) simp

lemma windows_member:
  "(a, b) \<in> set (windows m cur e) \<Longrightarrow> cur \<le> a \<and> a < b \<and> b \<le> e \<and> b = min (a + m) e \<and> 1 \<le> m"
proof (induction m cur e rule: windows.induct)
  case (1 m cur e)
  show ?case
  proof (cases "cur < e \<and> 1 \<le> m")
    case True
    then have "(a, b) = (cur, min (cur + m) e) \<or> (a, b) \<in> set (windows m (min (cur + m) e) e)"
      using "1.prems" by (simp add: windows_unfold)
    then show ?thesis
    proof
      assume "(a, b) = (cur, min (cur + m) e)"
      with True show ?thesis by auto
    next
      assume "(a, b) \<in> set (windows m (min (cur + m) e) e)"
      with "1.IH" True have "min (cur + m) e \<le> a \<and> a < b \<and> b \<le> e \<and> b = min (a + m) e \<and> 1 \<le> m"
        by blast
      with True show ?thesis by auto
    qed
  next
    case False
    with "1.prems" show ?thesis by (simp add: windows_Nil)
  qed
qed

lemma windows_hd: "cur < e \<Longrightarrow> 1 \<le> m \<Longrightarrow> fst (hd (windows m cur e)) = cur"
  by (simp add: windows_unfold)

lemma windows_last: "cur < e \<Longrightarrow> 1 \<le> m \<Longrightarrow> snd (last (windows m cur e)) = e"
proof (induction m cur e rule: windows.induct)
  case (1 m cur e)
  show ?case
  proof (cases "min (cur + m) e < e")
    case True
    with 1 have "snd (last (windows m (min (cur + m) e) e)) = e" by simp
    moreover have "windows m (min (cur + m) e) e \<noteq> []"
      using True "1.prems" by (simp add: windows_Nil_iff)
    ultimately show ?thesis using "1.prems" by (simp add: windows_unfold)
  next
    case False
    then have "windows m (min (cur + m) e) e = []" by (simp add: windows_Nil)
    with False "1.prems" show ?thesis by (simp add: windows_unfold)
  qed
qed

lemma windows_adjacent:
  "Suc k < length (windows m cur e) \<Longrightarrow> snd (windows m cur e ! k) = fst (windows m cur e ! Suc k)"
proof (induction m cur e arbitrary: k rule: windows.induct)
  case (1 m cur e)
  from "1.prems" have c: "cur < e \<and> 1 \<le> m"
    by (cases "cur < e \<and> 1 \<le> m") (simp_all add: windows_Nil)
  let ?n = "min (cur + m) e"
  have u: "windows m cur e = (cur, ?n) # windows m ?n e" using c by (simp add: windows_unfold)
  from "1.prems" u have ne: "windows m ?n e \<noteq> []" by auto
  then have c': "?n < e" by (simp add: windows_Nil_iff)
  show ?case
  proof (cases k)
    case 0
    have "fst (hd (windows m ?n e)) = ?n" using c' c by (simp add: windows_hd)
    with ne 0 u show ?thesis by (simp add: hd_conv_nth)
  next
    case (Suc k')
    with "1.prems" u have "Suc k' < length (windows m ?n e)" by simp
    with "1.IH" c have "snd (windows m ?n e ! k') = fst (windows m ?n e ! Suc k')" by blast
    with Suc u show ?thesis by simp
  qed
qed

lemma emitted_unfold:
  assumes "cur < e" "1 \<le> m"
  shows "emitted pth fname lang lines m (cur, e) =
           (if strip (window_content lines (cur, min (cur + m) e)) = [] then []
            else [window_doc pth fname lang lines (cur, min (cur + m) e)]) @
           emitted pth fname lang lines m (min (cur + m) e, e)"
  using assms by (simp add: emitted_def windows_unfold)

lemma emitted_Nil: "\<not> (cur < e \<and> 1 \<le> m) \<Longrightarrow> emitted pth fname lang lines m (cur, e) = []"
  by (simp add: emitted_def windows_Nil)

lemma chunk_loop_total:
  "1 \<le> m \<Longrightarrow>
   chunk_loop pth fname lang lines m cur e docs = Some (docs @ emitted pth fname lang lines m (cur, e))"
proof (induction m cur e arbitrary: docs rule: windows.induct)
  case (1 m cur e)
  show ?case
  proof (cases "cur < e")
    case True
    let ?n = "min (cur + m) e"
    have IH: "\<And>ds. chunk_loop pth fname lang lines m ?n e ds =
                Some (ds @ emitted pth fname lang lines m (?n, e))"
      using "1.IH" True "1.prems" by blast
    show ?thesis
      using True "1.prems"
      by (subst chunk_loop.simps)
         (simp add: IH emitted_unfold [OF True "1.prems"] window_content_def window_doc_def Let_def)
  next
    case False
    then show ?thesis by (subst chunk_loop.simps) (simp add: emitted_Nil)
  qed
qed

lemma chunk_loop_diverges_aux:
  assumes "chunk_loop pth fname lang lines m cur e docs = Some r"
  shows "cur < e \<longrightarrow> 1 \<le> m"
proof (rule chunk_loop.raw_induct
    [where P = "\<lambda>pth fname lang lines m cur e docs r. cur < e \<longrightarrow> 1 \<le> m", OF _ assms])
  fix loop :: "pystr \<Rightarrow> pystr \<Rightarrow> pystr \<Rightarrow> pystr list \<Rightarrow> int \<Rightarrow> int \<Rightarrow> int \<Rightarrow> document list
     \<Rightarrow> document list option"
  fix pth fname lang :: pystr and lines :: "pystr list" and m cur e :: int
    and docs r :: "document list"
  assume IH: "\<And>pth fname lang lines m cur e docs r.
     loop pth fname lang lines m cur e docs = Some r \<Longrightarrow> cur < e \<longrightarrow> 1 \<le> m"
  assume step: "(if cur < e
      then let chunk_end = min (cur + m) e;
               chunk_lines = slice lines cur chunk_end;
               content = rstrip (join chunk_lines)
           in if strip content = []
              then loop pth fname lang lines m chunk_end e docs
              else loop pth fname lang lines m chunk_end e
                    (docs @
                     [\<lparr>page_content = content, path = pth, filename = fname,
                         language = lang, chunk_type = chunk_type_of lang,
                         line_start = cur + 1, line_end = chunk_end\<rparr>])
      else Some docs) = Some r"
  show "cur < e \<longrightarrow> 1 \<le> m"
  proof (intro impI)
    assume lt: "cur < e"
    show "1 \<le> m"
    proof (rule ccontr)
      assume neg: "\<not> 1 \<le> m"
      then have less: "min (cur + m) e < e" using lt by simp
      from step lt obtain ds where "loop pth fname lang lines m (min (cur + m) e) e ds = Some r"
        by (auto simp: Let_def split: if_splits)
      from IH [OF this] less neg show False by blast
    qed
  qed
qed

lemma chunk_loop_Some:
  assumes "chunk_loop pth fname lang lines m cur e docs = Some r"
  shows "r = docs @ emitted pth fname lang lines m (cur, e)"
proof (cases "1 \<le> m")
  case True
  with assms show ?thesis by (simp add: chunk_loop_total)
next
  case False
  with chunk_loop_diverges_aux [OF assms] have ge: "\<not> cur < e" by blast
  with assms have "r = docs" by (subst (asm) chunk_loop.simps) simp
  with False show ?thesis by (simp add: emitted_Nil)
qed

lemma block_loop_total:
  "1 \<le> m \<Longrightarrow>
   block_loop pth fname lang lines m bs docs =
     Some (docs @ concat (map (emitted pth fname lang lines m) bs))"
proof (induction bs arbitrary: docs)
  case Nil
  then show ?case by simp
next
  case (Cons b bs)
  obtain s e where b: "b = (s, e)" by (cases b)
  with Cons show ?case by (simp add: chunk_loop_total)
qed

lemma block_loop_Some:
  "block_loop pth fname lang lines m bs docs = Some r \<Longrightarrow>
   r = docs @ concat (map (emitted pth fname lang lines m) bs)"
proof (induction bs arbitrary: docs)
  case Nil
  then show ?case by simp
next
  case (Cons b bs)
  obtain s e where b: "b = (s, e)" by (cases b)
  from Cons.prems b obtain ds where
    ds: "chunk_loop pth fname lang lines m s e docs = Some ds"
    and rest: "block_loop pth fname lang lines m bs ds = Some r"
    by (auto split: option.splits)
  from chunk_loop_Some [OF ds] Cons.IH [OF rest] b show ?case by simp
qed

lemma create_documents_Some:
  assumes "create_documents_from_file pth fname lang lines m = Some (Inr docs)"
  shows "\<exists>bs. find_code_block_boundaries lines lang = Inr bs \<and>
              docs = concat (map (emitted pth fname lang lines m) bs)"
proof (cases "find_code_block_boundaries lines lang")
  case (Inl err)
  with assms show ?thesis by (simp add: create_documents_from_file_def)
next
  case (Inr bs)
  with assms have "block_loop pth fname lang lines m bs [] = Some docs"
    by (auto simp: create_documents_from_file_def)
  from block_loop_Some [OF this] Inr show ?thesis by simp
qed

lemma create_documents_total:
  "1 \<le> m \<Longrightarrow> find_code_block_boundaries lines lang = Inr bs \<Longrightarrow>
   create_documents_from_file pth fname lang lines m =
     Some (Inr (concat (map (emitted pth fname lang lines m) bs)))"
  by (simp add: create_documents_from_file_def block_loop_total)

lemma emitted_member:
  assumes "d \<in> set (emitted pth fname lang lines m (s, e))"
  shows "\<exists>cur. s \<le> cur \<and> cur < e \<and> 1 \<le> m \<and>
           d = window_doc pth fname lang lines (cur, min (cur + m) e) \<and>
           strip (window_content lines (cur, min (cur + m) e)) \<noteq> []"
proof -
  from assms obtain w where w: "w \<in> set (windows m s e)"
    "strip (window_content lines w) \<noteq> []" "d = window_doc pth fname lang lines w"
    by (auto simp: emitted_def)
  obtain a b where ab: "w = (a, b)" by (cases w)
  with w windows_member [of a b m s e] show ?thesis by auto
qed

subsection \<open>The boundary detector\<close>

lemma getitem_in_range: "0 \<le> j \<Longrightarrow> j < len xs \<Longrightarrow> getitem xs j = Inr (xs ! nat j)"
  by (simp add: getitem_def Let_def)

lemma walk_back_total:
  "- 1 \<le> j \<Longrightarrow> j < len lines \<Longrightarrow>
   \<exists>k. walk_back lines j = Inr k \<and> - 1 \<le> k \<and> k \<le> j \<and>
       (\<forall>i. k < i \<and> i \<le> j \<longrightarrow> is_decorator (lines ! nat i)) \<and>
       (0 \<le> k \<longrightarrow> \<not> is_decorator (lines ! nat k))"
proof (induction lines j rule: walk_back.induct)
  case (1 lines j)
  show ?case
  proof (cases "0 \<le> j \<and> is_decorator (lines ! nat j)")
    case True
    then have g: "getitem lines j = Inr (lines ! nat j)"
      using "1.prems" by (simp add: getitem_in_range)
    have "\<exists>k. walk_back lines (j - 1) = Inr k \<and> - 1 \<le> k \<and> k \<le> j - 1 \<and>
       (\<forall>i. k < i \<and> i \<le> j - 1 \<longrightarrow> is_decorator (lines ! nat i)) \<and>
       (0 \<le> k \<longrightarrow> \<not> is_decorator (lines ! nat k))"
      using "1.IH" [OF _ g] True "1.prems" by simp
    then obtain k where k: "walk_back lines (j - 1) = Inr k" "- 1 \<le> k" "k \<le> j - 1"
      "\<forall>i. k < i \<and> i \<le> j - 1 \<longrightarrow> is_decorator (lines ! nat i)"
      "0 \<le> k \<longrightarrow> \<not> is_decorator (lines ! nat k)" by blast
    have w: "walk_back lines j = Inr k"
      using True g k(1) by (subst walk_back.simps) simp
    have "\<forall>i. k < i \<and> i \<le> j \<longrightarrow> is_decorator (lines ! nat i)"
    proof (intro allI impI)
      fix i assume "k < i \<and> i \<le> j"
      then have "i = j \<or> (k < i \<and> i \<le> j - 1)" by arith
      with True k(4) show "is_decorator (lines ! nat i)" by blast
    qed
    with w k show ?thesis by auto
  next
    case False
    have w: "walk_back lines j = Inr j"
    proof (cases "0 \<le> j")
      case True
      with "1.prems" False show ?thesis
        by (subst walk_back.simps) (simp add: getitem_in_range)
    next
      case False
      then show ?thesis by (subst walk_back.simps) simp
    qed
    with False "1.prems" show ?thesis by auto
  qed
qed

lemma find_indices_set:
  "set (find_indices pattern i ls) =
     {i + int k | k. k < length ls \<and> pattern (lstrip (ls ! k))}"
proof (induction ls arbitrary: i)
  case Nil
  then show ?case by simp
next
  case (Cons l ls)
  have split: "{i + int k | k. k < length (l # ls) \<and> pattern (lstrip ((l # ls) ! k))} =
      (if pattern (lstrip l) then {i} else {}) \<union>
      {i + 1 + int k | k. k < length ls \<and> pattern (lstrip (ls ! k))}" (is "?L = ?R")
  proof (intro set_eqI iffI)
    fix x assume "x \<in> ?L"
    then obtain k where k: "x = i + int k" "k < length (l # ls)" "pattern (lstrip ((l # ls) ! k))"
      by blast
    show "x \<in> ?R"
    proof (cases k)
      case 0
      with k show ?thesis by simp
    next
      case (Suc k')
      with k have "x = i + 1 + int k'" "k' < length ls" "pattern (lstrip (ls ! k'))" by simp_all
      then show ?thesis by blast
    qed
  next
    fix x assume "x \<in> ?R"
    then consider "pattern (lstrip l)" "x = i"
      | k where "x = i + 1 + int k" "k < length ls" "pattern (lstrip (ls ! k))"
      by (auto split: if_splits)
    then show "x \<in> ?L"
    proof cases
      case 1
      then have "x = i + int 0 \<and> 0 < length (l # ls) \<and> pattern (lstrip ((l # ls) ! 0))" by simp
      then show ?thesis by blast
    next
      case 2
      then have "x = i + int (Suc k) \<and> Suc k < length (l # ls) \<and>
                 pattern (lstrip ((l # ls) ! Suc k))" by simp
      then show ?thesis by blast
    qed
  qed
  show ?case unfolding split using Cons.IH [of "i + 1"] by auto
qed

lemma find_indices_sorted: "sorted_wrt (<) (find_indices pattern i ls)"
proof (induction ls arbitrary: i)
  case Nil
  then show ?case by simp
next
  case (Cons l ls)
  have "\<forall>x\<in>set (find_indices pattern (i + 1) ls). i < x"
    by (auto simp: find_indices_set)
  with Cons.IH [of "i + 1"] show ?case by simp
qed

lemma find_indices_Nil_iff:
  "find_indices pattern i ls = [] \<longleftrightarrow> (\<forall>l\<in>set ls. \<not> pattern (lstrip l))"
  by (induction ls arbitrary: i) auto

lemma find_indices_range:
  "x \<in> set (find_indices pattern 0 ls) \<Longrightarrow> 0 \<le> x \<and> x < len ls \<and> pattern (lstrip (ls ! nat x))"
  by (auto simp: find_indices_set len_def)

lemma find_indices_mem:
  "k < length ls \<Longrightarrow> pattern (lstrip (ls ! k)) \<Longrightarrow> int k \<in> set (find_indices pattern 0 ls)"
  by (auto simp: find_indices_set)

lemma fixed_blocks_unfold:
  "i < n \<Longrightarrow> fixed_blocks i n = (i, min (i + 200) n) # fixed_blocks (i + 200) n"
  by (subst fixed_blocks.simps) simp

lemma fixed_blocks_Nil: "\<not> i < n \<Longrightarrow> fixed_blocks i n = []"
  by (subst fixed_blocks.simps) simp

lemma fixed_blocks_eq:
  "fixed_blocks i n =
     map (\<lambda>k. (i + 200 * int k, min (i + 200 * int k + 200) n)) [0..<nat ((n - i + 199) div 200)]"
proof (induction i n rule: fixed_blocks.induct)
  case (1 i n)
  show ?case
  proof (cases "i < n")
    case True
    have cnt: "nat ((n - i + 199) div 200) = Suc (nat ((n - (i + 200) + 199) div 200))"
      using True by (simp add: Suc_nat_eq_nat_zadd1) 
    have "fixed_blocks i n = (i, min (i + 200) n) # fixed_blocks (i + 200) n"
      using True by (rule fixed_blocks_unfold)
    also have "fixed_blocks (i + 200) n =
        map (\<lambda>k. (i + 200 + 200 * int k, min (i + 200 + 200 * int k + 200) n))
          [0..<nat ((n - (i + 200) + 199) div 200)]"
      using "1.IH" True by simp
    also have "\<dots> = map (\<lambda>k. (i + 200 * int k, min (i + 200 * int k + 200) n))
          (map Suc [0..<nat ((n - (i + 200) + 199) div 200)])"
      by (simp add: algebra_simps)
    finally show ?thesis
      unfolding cnt by (simp add: upt_conv_Cons map_Suc_upt del: upt_Suc)
  next
    case False
    then have "nat ((n - i + 199) div 200) = 0" by simp
    with False show ?thesis by (simp add: fixed_blocks_Nil)
  qed
qed

lemma block_start_python:
  assumes "0 \<le> i" "i < len lines"
  shows "walk_back lines (i - 1) = Inr (block_start lines (py ''python'') i - 1) \<and>
         0 \<le> block_start lines (py ''python'') i \<and> block_start lines (py ''python'') i \<le> i \<and>
         (\<forall>j. block_start lines (py ''python'') i \<le> j \<and> j < i \<longrightarrow> is_decorator (lines ! nat j)) \<and>
         (0 < block_start lines (py ''python'') i \<longrightarrow>
            \<not> is_decorator (lines ! nat (block_start lines (py ''python'') i - 1)))"
proof -
  from assms have "- 1 \<le> i - 1" "i - 1 < len lines" by simp_all
  from walk_back_total [OF this] obtain k where k: "walk_back lines (i - 1) = Inr k"
    "- 1 \<le> k" "k \<le> i - 1" "\<forall>j. k < j \<and> j \<le> i - 1 \<longrightarrow> is_decorator (lines ! nat j)"
    "0 \<le> k \<longrightarrow> \<not> is_decorator (lines ! nat k)" by blast
  have s: "block_start lines (py ''python'') i = k + 1" using k(1) by (simp add: block_start_def)
  have "\<forall>j. k + 1 \<le> j \<and> j < i \<longrightarrow> is_decorator (lines ! nat j)"
  proof (intro allI impI)
    fix j assume "k + 1 \<le> j \<and> j < i"
    then have "k < j \<and> j \<le> i - 1" by arith
    with k(4) show "is_decorator (lines ! nat j)" by blast
  qed
  with k show ?thesis unfolding s by simp
qed

lemma block_start_other: "lang \<noteq> py ''python'' \<Longrightarrow> block_start lines lang i = i"
  by (simp add: block_start_def)

lemma block_start_bounds:
  assumes "0 \<le> i" "i < len lines"
  shows "0 \<le> block_start lines lang i \<and> block_start lines lang i \<le> i"
proof (cases "lang = py ''python''")
  case True
  with block_start_python [OF assms] show ?thesis by simp
next
  case False
  with assms show ?thesis by (simp add: block_start_other)
qed

lemma build_ranges_eq:
  "\<forall>x\<in>set idx. 0 \<le> x \<and> x < len lines \<Longrightarrow>
   build_ranges lines lang idx =
     Inr (zip (map (block_start lines lang) idx) (tl idx @ [len lines]))"
proof (induction idx)
  case Nil
  then show ?case by simp
next
  case (Cons a rest)
  then have a: "0 \<le> a" "a < len lines" by simp_all
  have IH: "build_ranges lines lang rest =
      Inr (zip (map (block_start lines lang) rest) (tl rest @ [len lines]))"
    using Cons by simp
  have st: "(if lang = py ''python''
             then (case walk_back lines (a - 1) of Inl err \<Rightarrow> Inl err | Inr j \<Rightarrow> Inr (j + 1))
             else Inr a) = Inr (block_start lines lang a)"
    using block_start_python [OF a] by (simp add: block_start_other)
  show ?case
  proof (cases rest)
    case Nil
    with st show ?thesis by simp
  next
    case (Cons b rest')
    with IH st show ?thesis by simp
  qed
qed

lemma blocks_of_nth:
  assumes "k < length idx"
  shows "blocks_of lines lang idx ! k =
           (block_start lines lang (idx ! k),
            if Suc k < length idx then idx ! Suc k else len lines)"
proof -
  have l: "length (tl idx @ [len lines]) = length idx" using assms by (cases idx) auto
  have "(tl idx @ [len lines]) ! k = (if Suc k < length idx then idx ! Suc k else len lines)"
    using assms by (cases idx) (auto simp: nth_append)
  with assms l show ?thesis by (simp add: blocks_of_def)
qed

lemma blocks_of_length: "length (blocks_of lines lang idx) = length idx"
  by (cases idx) (simp_all add: blocks_of_def)

lemma fcbb_fallback:
  "language_pattern lang = None \<Longrightarrow>
   find_code_block_boundaries lines lang = Inr (fixed_blocks 0 (len lines))"
  by (simp add: find_code_block_boundaries_def)

lemma fcbb_single:
  "language_pattern lang = Some pattern \<Longrightarrow> find_indices pattern 0 lines = [] \<Longrightarrow>
   find_code_block_boundaries lines lang = Inr [(0, len lines)]"
  by (simp add: find_code_block_boundaries_def)

lemma fcbb_blocks:
  assumes "language_pattern lang = Some pattern" "find_indices pattern 0 lines \<noteq> []"
  shows "find_code_block_boundaries lines lang =
     Inr (if 0 < block_start lines lang (hd (find_indices pattern 0 lines))
          then (0, block_start lines lang (hd (find_indices pattern 0 lines))) #
               blocks_of lines lang (find_indices pattern 0 lines)
          else blocks_of lines lang (find_indices pattern 0 lines))"
proof -
  let ?idx = "find_indices pattern 0 lines"
  have "\<forall>x\<in>set ?idx. 0 \<le> x \<and> x < len lines" using find_indices_range by blast
  then have b: "build_ranges lines lang ?idx = Inr (blocks_of lines lang ?idx)"
    unfolding blocks_of_def by (rule build_ranges_eq)
  from assms(2) obtain a rest where ar: "?idx = a # rest" by (cases ?idx) auto
  then have "blocks_of lines lang ?idx =
     (block_start lines lang a, hd (rest @ [len lines])) #
       zip (map (block_start lines lang) rest) (tl (rest @ [len lines]))"
    by (cases rest) (simp_all add: blocks_of_def)
  with assms b ar show ?thesis
    by (simp add: find_code_block_boundaries_def)
qed

lemma fcbb_total: "\<exists>bs. find_code_block_boundaries lines lang = Inr bs"
proof (cases "language_pattern lang")
  case None
  then show ?thesis by (simp add: fcbb_fallback)
next
  case (Some pattern)
  show ?thesis
  proof (cases "find_indices pattern 0 lines = []")
    case True
    with Some show ?thesis by (simp add: fcbb_single)
  next
    case False
    with Some show ?thesis by (simp add: fcbb_blocks)
  qed
qed

lemma blocks_of_bounds:
  assumes "\<forall>x\<in>set idx. 0 \<le> x \<and> x < len lines" "(s, e) \<in> set (blocks_of lines lang idx)"
  shows "0 \<le> s \<and> e \<le> len lines"
proof -
  from assms(2) have "s \<in> set (map (block_start lines lang) idx)"
    and "e \<in> set (tl idx @ [len lines])"
    unfolding blocks_of_def by (auto dest: set_zip_leftD set_zip_rightD)
  then obtain i where i: "i \<in> set idx" "s = block_start lines lang i"
    and e: "e \<in> set idx \<or> e = len lines"
    by (auto dest: list.set_sel(2) [rotated])
  from i assms(1) block_start_bounds [of i lines lang] have "0 \<le> s" by auto
  moreover from e assms(1) have "e \<le> len lines" by auto
  ultimately show ?thesis by simp
qed

lemma fixed_blocks_bounds:
  "(s, e) \<in> set (fixed_blocks 0 n) \<Longrightarrow> 0 \<le> s \<and> e \<le> n"
  by (auto simp: fixed_blocks_eq)

lemma fcbb_bounds:
  assumes "find_code_block_boundaries lines lang = Inr bs" "(s, e) \<in> set bs"
  shows "0 \<le> s \<and> e \<le> len lines"
proof (cases "language_pattern lang")
  case None
  with assms show ?thesis by (auto simp: fcbb_fallback dest: fixed_blocks_bounds)
next
  case (Some pattern)
  let ?idx = "find_indices pattern 0 lines"
  have r: "\<forall>x\<in>set ?idx. 0 \<le> x \<and> x < len lines" using find_indices_range by blast
  show ?thesis
  proof (cases "?idx = []")
    case True
    with Some assms show ?thesis by (auto simp: fcbb_single)
  next
    case False
    then have "hd ?idx \<in> set ?idx" by simp
    with r have h: "0 \<le> hd ?idx" "hd ?idx < len lines" by auto
    from assms Some False have
      "(s, e) = (0, block_start lines lang (hd ?idx)) \<or> (s, e) \<in> set (blocks_of lines lang ?idx)"
      by (auto simp: fcbb_blocks split: if_splits)
    then show ?thesis
    proof
      assume "(s, e) = (0, block_start lines lang (hd ?idx))"
      with block_start_bounds [OF h, of lang] h show ?thesis by simp
    next
      assume "(s, e) \<in> set (blocks_of lines lang ?idx)"
      with r show ?thesis by (rule blocks_of_bounds)
    qed
  qed
qed

text \<open>The equations that evaluate the model on a concrete input.\<close>

lemmas eval_defs =
  create_documents_from_file_def find_code_block_boundaries_def language_pattern_def py_def
  python_pattern_def js_pattern_def js_keyword_def lstrip_def rstrip_def strip_def
  startswith_def isspace_def len_def join_def slice_def getitem_def is_decorator_def
  walk_back.simps fixed_blocks.simps chunk_loop.simps chunk_type_of_def Let_def

lemma emitted_bounds:
  assumes "d \<in> set (emitted pth fname lang lines m (s, e))"
  shows "s + 1 \<le> line_start d \<and> line_start d \<le> line_end d \<and> line_end d \<le> e \<and>
         line_end d - line_start d + 1 \<le> m"
proof -
  from emitted_member [OF assms] obtain cur where
    "s \<le> cur" "cur < e" "1 \<le> m" "d = window_doc pth fname lang lines (cur, min (cur + m) e)"
    by blast
  then show ?thesis by (auto simp: window_doc_def)
qed

section \<open>The claims\<close>

text \<open>
  C9. Once the lines have been read, chunk production with \<open>chunk_max_lines \<ge> 1\<close>
  returns: boundary detection raises no error, every window loop terminates, and the
  result is a list of documents.
\<close>

theorem chunk_production_returns:
  "1 \<le> chunk_max_lines \<Longrightarrow>
   \<exists>docs. create_documents_from_file pth fname lang lines chunk_max_lines = Some (Inr docs)"
proof -
  assume m: "1 \<le> chunk_max_lines"
  obtain bs where "find_code_block_boundaries lines lang = Inr bs"
    using fcbb_total by blast
  from create_documents_total [OF m this] show ?thesis by blast
qed

theorem chunk_production_returns_witness:
  "(1::int) \<le> 400 \<and>
   (\<exists>docs. create_documents_from_file (py ''app.py'') (py ''app.py'') (py ''python'')
      [py ''import os\<newline>'', py ''def main():\<newline>'', py ''    pass\<newline>''] 400 = Some (Inr docs))"
  using chunk_production_returns [of 400 "py ''app.py''" "py ''app.py''" "py ''python''"
      "[py ''import os\<newline>'', py ''def main():\<newline>'', py ''    pass\<newline>'']"]
  by simp

text \<open>
  C10. With \<open>chunk_max_lines \<ge> 1\<close> the run returns, and every returned document has
  \<open>1 \<le> line_start \<le> line_end \<le> len(lines)\<close>.
\<close>

theorem line_range_inside_file:
  assumes "1 \<le> chunk_max_lines"
  shows "\<exists>docs. create_documents_from_file pth fname lang lines chunk_max_lines = Some (Inr docs) \<and>
           (\<forall>d\<in>set docs. 1 \<le> line_start d \<and> line_start d \<le> line_end d \<and>
                           line_end d \<le> len lines)"
proof -
  obtain bs where bs: "find_code_block_boundaries lines lang = Inr bs"
    using fcbb_total by blast
  let ?docs = "concat (map (emitted pth fname lang lines chunk_max_lines) bs)"
  have "1 \<le> line_start d \<and> line_start d \<le> line_end d \<and> line_end d \<le> len lines"
    if "d \<in> set ?docs" for d
  proof -
    from that obtain s e where b: "(s, e) \<in> set bs"
      and d: "d \<in> set (emitted pth fname lang lines chunk_max_lines (s, e))" by auto
    from fcbb_bounds [OF bs b] emitted_bounds [OF d] show ?thesis by arith
  qed
  with create_documents_total [OF assms bs] show ?thesis by blast
qed

theorem line_range_inside_file_witness:
  "create_documents_from_file (py ''app.py'') (py ''app.py'') (py ''python'')
      [py ''import os\<newline>'', py ''def main():\<newline>'', py ''    pass\<newline>''] 400 =
     Some (Inr [\<lparr>page_content = py ''import os'', path = py ''app.py'', filename = py ''app.py'',
                  language = py ''python'', chunk_type = py ''code'', line_start = 1, line_end = 1\<rparr>,
                \<lparr>page_content = py ''def main():\<newline>    pass'', path = py ''app.py'',
                  filename = py ''app.py'', language = py ''python'', chunk_type = py ''code'',
                  line_start = 2, line_end = 3\<rparr>]) \<and>
   (\<exists>docs. create_documents_from_file (py ''app.py'') (py ''app.py'') (py ''python'')
      [py ''import os\<newline>'', py ''def main():\<newline>'', py ''    pass\<newline>''] 400 = Some (Inr docs) \<and>
      (\<forall>d\<in>set docs. 1 \<le> line_start d \<and> line_start d \<le> line_end d \<and>
         line_end d \<le> len [py ''import os\<newline>'', py ''def main():\<newline>'', py ''    pass\<newline>'']))"
proof -
  have ev: "create_documents_from_file (py ''app.py'') (py ''app.py'') (py ''python'')
      [py ''import os\<newline>'', py ''def main():\<newline>'', py ''    pass\<newline>''] 400 =
     Some (Inr [\<lparr>page_content = py ''import os'', path = py ''app.py'', filename = py ''app.py'',
                  language = py ''python'', chunk_type = py ''code'', line_start = 1, line_end = 1\<rparr>,
                \<lparr>page_content = py ''def main():\<newline>    pass'', path = py ''app.py'',
                  filename = py ''app.py'', language = py ''python'', chunk_type = py ''code'',
                  line_start = 2, line_end = 3\<rparr>])"
    by (simp add: eval_defs)
  have "(1::int) \<le> 400" by simp
  from line_range_inside_file [OF this, of "py ''app.py''" "py ''app.py''" "py ''python''"
      "[py ''import os\<newline>'', py ''def main():\<newline>'', py ''    pass\<newline>'']"] ev
  show ?thesis by blast
qed

text \<open>
  C7. Every returned document comes from a window \<open>[cur, chunk_end)\<close> of one of the
  boundaries, with \<open>chunk_end = min (cur + chunk_max_lines) end\<close>; it records
  \<open>line_start = cur + 1\<close> and \<open>line_end = chunk_end\<close>, and its content is the
  right-stripped concatenation of \<^verbatim>\<open>lines[cur:chunk_end]\<close>.
\<close>

theorem line_numbers_of_window:
  assumes "create_documents_from_file pth fname lang lines chunk_max_lines = Some (Inr docs)"
    and "d \<in> set docs"
  shows "\<exists>boundaries start end_ix cur chunk_end.
           find_code_block_boundaries lines lang = Inr boundaries \<and>
           (start, end_ix) \<in> set boundaries \<and> start \<le> cur \<and> cur < end_ix \<and>
           chunk_end = min (cur + chunk_max_lines) end_ix \<and>
           line_start d = cur + 1 \<and> line_end d = chunk_end \<and>
           page_content d = rstrip (join (slice lines cur chunk_end))"
proof -
  from create_documents_Some [OF assms(1)] obtain bs where
    bs: "find_code_block_boundaries lines lang = Inr bs"
    and docs: "docs = concat (map (emitted pth fname lang lines chunk_max_lines) bs)" by blast
  from assms(2) docs obtain s e where b: "(s, e) \<in> set bs"
    and d: "d \<in> set (emitted pth fname lang lines chunk_max_lines (s, e))" by auto
  from emitted_member [OF d] obtain cur where cur: "s \<le> cur" "cur < e"
    "d = window_doc pth fname lang lines (cur, min (cur + chunk_max_lines) e)" by blast
  from cur(3) have "line_start d = cur + 1" "line_end d = min (cur + chunk_max_lines) e"
    "page_content d = rstrip (join (slice lines cur (min (cur + chunk_max_lines) e)))"
    by (simp_all add: window_doc_def window_content_def)
  with bs b cur(1,2) show ?thesis by blast
qed

theorem line_numbers_of_window_witness:
  "create_documents_from_file (py ''m.py'') (py ''m.py'') (py ''python'')
     [py ''a = 1\<newline>'', py ''b = 2\<newline>'', py ''def f():\<newline>'', py ''    x = 1\<newline>'',
      py ''    return x\<newline>'', py ''def g():\<newline>'', py ''    y = 2\<newline>'', py ''    z = 3\<newline>'',
      py ''    w = 4\<newline>'', py ''    return y\<newline>''] 400 =
     Some (Inr
       [\<lparr>page_content = py ''a = 1\<newline>b = 2'', path = py ''m.py'', filename = py ''m.py'',
          language = py ''python'', chunk_type = py ''code'', line_start = 1, line_end = 2\<rparr>,
        \<lparr>page_content = py ''def f():\<newline>    x = 1\<newline>    return x'', path = py ''m.py'',
          filename = py ''m.py'', language = py ''python'', chunk_type = py ''code'',
          line_start = 3, line_end = 5\<rparr>,
        \<lparr>page_content = py ''def g():\<newline>    y = 2\<newline>    z = 3\<newline>    w = 4\<newline>    return y'',
          path = py ''m.py'', filename = py ''m.py'', language = py ''python'',
          chunk_type = py ''code'', line_start = 6, line_end = 10\<rparr>]) \<and>
   (\<exists>boundaries start end_ix cur chunk_end.
      find_code_block_boundaries
        [py ''a = 1\<newline>'', py ''b = 2\<newline>'', py ''def f():\<newline>'', py ''    x = 1\<newline>'',
         py ''    return x\<newline>'', py ''def g():\<newline>'', py ''    y = 2\<newline>'', py ''    z = 3\<newline>'',
         py ''    w = 4\<newline>'', py ''    return y\<newline>''] (py ''python'') = Inr boundaries \<and>
      (start, end_ix) \<in> set boundaries \<and> start \<le> cur \<and> cur < end_ix \<and>
      chunk_end = min (cur + 400) end_ix \<and> 3 = cur + 1 \<and> 5 = chunk_end)"
proof -
  let ?lines = "[py ''a = 1\<newline>'', py ''b = 2\<newline>'', py ''def f():\<newline>'', py ''    x = 1\<newline>'',
      py ''    return x\<newline>'', py ''def g():\<newline>'', py ''    y = 2\<newline>'', py ''    z = 3\<newline>'',
      py ''    w = 4\<newline>'', py ''    return y\<newline>'']"
  let ?d1 = "\<lparr>page_content = py ''a = 1\<newline>b = 2'', path = py ''m.py'', filename = py ''m.py'',
          language = py ''python'', chunk_type = py ''code'', line_start = 1, line_end = 2\<rparr>"
  let ?d2 = "\<lparr>page_content = py ''def f():\<newline>    x = 1\<newline>    return x'', path = py ''m.py'',
          filename = py ''m.py'', language = py ''python'', chunk_type = py ''code'',
          line_start = 3, line_end = 5\<rparr>"
  let ?d3 = "\<lparr>page_content = py ''def g():\<newline>    y = 2\<newline>    z = 3\<newline>    w = 4\<newline>    return y'',
          path = py ''m.py'', filename = py ''m.py'', language = py ''python'',
          chunk_type = py ''code'', line_start = 6, line_end = 10\<rparr>"
  have ev: "create_documents_from_file (py ''m.py'') (py ''m.py'') (py ''python'') ?lines 400 =
      Some (Inr [?d1, ?d2, ?d3])"
    by (simp add: eval_defs)
  have mem: "?d2 \<in> set [?d1, ?d2, ?d3]" by simp
  from line_numbers_of_window [OF ev mem] ev show ?thesis by (simp, blast)
qed

lemma chunk_loop_None:
  assumes "\<not> 1 \<le> m" "cur < e"
  shows "chunk_loop pth fname lang lines m cur e docs = None"
proof (cases "chunk_loop pth fname lang lines m cur e docs")
  case None
  then show ?thesis .
next
  case (Some r)
  from chunk_loop_diverges_aux [OF Some] assms show ?thesis by simp
qed

text \<open>
  C6, as the code has it. No returned document covers more than \<open>chunk_max_lines\<close>
  lines, whatever \<open>chunk_max_lines\<close> is. For
  \<open>chunk_max_lines \<ge> 1\<close> the loop over one boundary range returns, and the windows
  \<open>ws\<close> it went through start at the start of the range, each begin where the one
  before ended, end at the end of the range and hold between 1 and \<open>chunk_max_lines\<close>
  lines each; the documents appended are those of the windows whose content is not blank.
\<close>

theorem chunk_size_bound:
  "(\<forall>docs. create_documents_from_file pth fname lang lines chunk_max_lines = Some (Inr docs) \<longrightarrow>
      (\<forall>d\<in>set docs. line_end d - line_start d + 1 \<le> chunk_max_lines)) \<and>
   (1 \<le> chunk_max_lines \<longrightarrow>
      (\<exists>ws. chunk_loop pth fname lang lines chunk_max_lines start end_ix docs0 =
               Some (docs0 @ map (window_doc pth fname lang lines)
                                (filter (\<lambda>w. strip (window_content lines w) \<noteq> []) ws)) \<and>
             (ws = [] \<longleftrightarrow> end_ix \<le> start) \<and>
             (start < end_ix \<longrightarrow> fst (hd ws) = start \<and> snd (last ws) = end_ix) \<and>
             (\<forall>k. Suc k < length ws \<longrightarrow> snd (ws ! k) = fst (ws ! Suc k)) \<and>
             (\<forall>w\<in>set ws. fst w < snd w \<and> snd w - fst w \<le> chunk_max_lines)))"
proof (intro conjI allI impI ballI)
  fix docs d
  assume r: "create_documents_from_file pth fname lang lines chunk_max_lines = Some (Inr docs)"
    and d: "d \<in> set docs"
  from create_documents_Some [OF r] d obtain s e where
    "d \<in> set (emitted pth fname lang lines chunk_max_lines (s, e))" by auto
  from emitted_bounds [OF this] show "line_end d - line_start d + 1 \<le> chunk_max_lines" by simp
next
  assume m: "1 \<le> chunk_max_lines"
  let ?ws = "windows chunk_max_lines start end_ix"
  have "chunk_loop pth fname lang lines chunk_max_lines start end_ix docs0 =
          Some (docs0 @ map (window_doc pth fname lang lines)
                           (filter (\<lambda>w. strip (window_content lines w) \<noteq> []) ?ws))"
    using chunk_loop_total [OF m] by (simp add: emitted_def)
  moreover have "?ws = [] \<longleftrightarrow> end_ix \<le> start" using m by (auto simp: windows_Nil_iff)
  moreover have "start < end_ix \<longrightarrow> fst (hd ?ws) = start \<and> snd (last ?ws) = end_ix"
    using m by (simp add: windows_hd windows_last)
  moreover have "\<forall>k. Suc k < length ?ws \<longrightarrow> snd (?ws ! k) = fst (?ws ! Suc k)"
    by (simp add: windows_adjacent)
  moreover have "\<forall>w\<in>set ?ws. fst w < snd w \<and> snd w - fst w \<le> chunk_max_lines"
  proof
    fix w assume "w \<in> set ?ws"
    then have "(fst w, snd w) \<in> set ?ws" by simp
    from windows_member [OF this] show "fst w < snd w \<and> snd w - fst w \<le> chunk_max_lines"
      by auto
  qed
  ultimately show "\<exists>ws. chunk_loop pth fname lang lines chunk_max_lines start end_ix docs0 =
               Some (docs0 @ map (window_doc pth fname lang lines)
                                (filter (\<lambda>w. strip (window_content lines w) \<noteq> []) ws)) \<and>
             (ws = [] \<longleftrightarrow> end_ix \<le> start) \<and>
             (start < end_ix \<longrightarrow> fst (hd ws) = start \<and> snd (last ws) = end_ix) \<and>
             (\<forall>k. Suc k < length ws \<longrightarrow> snd (ws ! k) = fst (ws ! Suc k)) \<and>
             (\<forall>w\<in>set ws. fst w < snd w \<and> snd w - fst w \<le> chunk_max_lines)"
    by blast
qed

theorem chunk_size_bound_witness:
  "create_documents_from_file (py ''n.txt'') (py ''n.txt'') (py ''text'')
     [py ''x = 1\<newline>'', py ''\<newline>'', py ''y = 2\<newline>'', py ''z = 3\<newline>'', py ''w = 4\<newline>''] 2 =
     Some (Inr
       [\<lparr>page_content = py ''x = 1'', path = py ''n.txt'', filename = py ''n.txt'',
          language = py ''text'', chunk_type = py ''prose'', line_start = 1, line_end = 2\<rparr>,
        \<lparr>page_content = py ''y = 2\<newline>z = 3'', path = py ''n.txt'', filename = py ''n.txt'',
          language = py ''text'', chunk_type = py ''prose'', line_start = 3, line_end = 4\<rparr>,
        \<lparr>page_content = py ''w = 4'', path = py ''n.txt'', filename = py ''n.txt'',
          language = py ''text'', chunk_type = py ''prose'', line_start = 5, line_end = 5\<rparr>]) \<and>
   list_all (\<lambda>d. line_end d - line_start d + 1 \<le> 2)
       [\<lparr>page_content = py ''x = 1'', path = py ''n.txt'', filename = py ''n.txt'',
          language = py ''text'', chunk_type = py ''prose'', line_start = 1, line_end = 2\<rparr>,
        \<lparr>page_content = py ''y = 2\<newline>z = 3'', path = py ''n.txt'', filename = py ''n.txt'',
          language = py ''text'', chunk_type = py ''prose'', line_start = 3, line_end = 4\<rparr>,
        \<lparr>page_content = py ''w = 4'', path = py ''n.txt'', filename = py ''n.txt'',
          language = py ''text'', chunk_type = py ''prose'', line_start = 5, line_end = 5\<rparr>] \<and>
   (\<exists>ws. chunk_loop (py ''n.txt'') (py ''n.txt'') (py ''text'')
            [py ''x = 1\<newline>'', py ''\<newline>'', py ''y = 2\<newline>'', py ''z = 3\<newline>'', py ''w = 4\<newline>''] 2 0 5 [] =
            Some ([] @ map (window_doc (py ''n.txt'') (py ''n.txt'') (py ''text'')
                    [py ''x = 1\<newline>'', py ''\<newline>'', py ''y = 2\<newline>'', py ''z = 3\<newline>'', py ''w = 4\<newline>''])
                  (filter (\<lambda>w. strip (window_content
                    [py ''x = 1\<newline>'', py ''\<newline>'', py ''y = 2\<newline>'', py ''z = 3\<newline>'', py ''w = 4\<newline>''] w) \<noteq> [])
                    ws)) \<and>
          (ws = [] \<longleftrightarrow> (5::int) \<le> 0) \<and>
          ((0::int) < 5 \<longrightarrow> fst (hd ws) = 0 \<and> snd (last ws) = 5) \<and>
          (\<forall>k. Suc k < length ws \<longrightarrow> snd (ws ! k) = fst (ws ! Suc k)) \<and>
          (\<forall>w\<in>set ws. fst w < snd w \<and> snd w - fst w \<le> 2))"
proof -
  let ?lines = "[py ''x = 1\<newline>'', py ''\<newline>'', py ''y = 2\<newline>'', py ''z = 3\<newline>'', py ''w = 4\<newline>'']"
  let ?docs = "[\<lparr>page_content = py ''x = 1'', path = py ''n.txt'', filename = py ''n.txt'',
          language = py ''text'', chunk_type = py ''prose'', line_start = 1, line_end = 2\<rparr>,
        \<lparr>page_content = py ''y = 2\<newline>z = 3'', path = py ''n.txt'', filename = py ''n.txt'',
          language = py ''text'', chunk_type = py ''prose'', line_start = 3, line_end = 4\<rparr>,
        \<lparr>page_content = py ''w = 4'', path = py ''n.txt'', filename = py ''n.txt'',
          language = py ''text'', chunk_type = py ''prose'', line_start = 5, line_end = 5\<rparr>]"
  have ev: "create_documents_from_file (py ''n.txt'') (py ''n.txt'') (py ''text'') ?lines 2 =
      Some (Inr ?docs)"
    by (simp add: eval_defs)
  have m: "(1::int) \<le> 2" by simp
  from chunk_size_bound [of "py ''n.txt''" "py ''n.txt''" "py ''text''" ?lines 2 0 5 "[]"] ev m
  show ?thesis unfolding list_all_iff by blast
qed

text \<open>
  With \<open>chunk_max_lines = 0\<close> the window loop never leaves a non-empty range: on a
  one-line file no window is taken to the end of the range and nothing is returned.
\<close>

theorem window_loop_counterexample:
  "find_code_block_boundaries [py ''x = 1\<newline>''] (py ''text'') = Inr [(0, 1)] \<and>
   chunk_loop (py ''n.txt'') (py ''n.txt'') (py ''text'') [py ''x = 1\<newline>''] 0 0 1 [] = None \<and>
   create_documents_from_file (py ''n.txt'') (py ''n.txt'') (py ''text'') [py ''x = 1\<newline>''] 0 = None"
proof -
  have b: "find_code_block_boundaries [py ''x = 1\<newline>''] (py ''text'') = Inr [(0, 1)]"
    by (simp add: find_code_block_boundaries_def language_pattern_def py_def len_def
        fixed_blocks.simps)
  have l: "chunk_loop (py ''n.txt'') (py ''n.txt'') (py ''text'') [py ''x = 1\<newline>''] 0 0 1 [] = None"
    by (rule chunk_loop_None) simp_all
  from b l have "create_documents_from_file (py ''n.txt'') (py ''n.txt'') (py ''text'')
      [py ''x = 1\<newline>''] 0 = None"
    by (simp add: create_documents_from_file_def)
  with b l show ?thesis by blast
qed

text \<open>
  C8. The content of a returned document is not empty and holds a character that is not
  white space. A window whose lines are all blank appends nothing: the loop goes on from
  the end of that window with the same documents. A range inside the file whose lines
  are all blank is left, for \<open>chunk_max_lines \<ge> 1\<close>, with the documents unchanged.
\<close>

theorem blank_windows_dropped:
  "(\<forall>docs. create_documents_from_file pth fname lang lines chunk_max_lines = Some (Inr docs) \<longrightarrow>
      (\<forall>d\<in>set docs. page_content d \<noteq> [] \<and> (\<exists>c\<in>set (page_content d). \<not> isspace c))) \<and>
   (cur < end_ix \<and>
    (\<forall>line\<in>set (slice lines cur (min (cur + chunk_max_lines) end_ix)). \<forall>c\<in>set line. isspace c) \<longrightarrow>
      chunk_loop pth fname lang lines chunk_max_lines cur end_ix docs0 =
      chunk_loop pth fname lang lines chunk_max_lines (min (cur + chunk_max_lines) end_ix) end_ix docs0) \<and>
   (1 \<le> chunk_max_lines \<and> 0 \<le> start \<and> end_ix \<le> len lines \<and>
    (\<forall>i. start \<le> i \<and> i < end_ix \<longrightarrow> (\<forall>c\<in>set (lines ! nat i). isspace c)) \<longrightarrow>
      chunk_loop pth fname lang lines chunk_max_lines start end_ix docs0 = Some docs0)"
proof (intro conjI allI impI ballI)
  fix docs d
  assume r: "create_documents_from_file pth fname lang lines chunk_max_lines = Some (Inr docs)"
    and d: "d \<in> set docs"
  from create_documents_Some [OF r] d obtain s e where
    "d \<in> set (emitted pth fname lang lines chunk_max_lines (s, e))" by auto
  from emitted_member [OF this] obtain w where
    w: "d = window_doc pth fname lang lines w" "strip (window_content lines w) \<noteq> []" by blast
  then have "strip (page_content d) \<noteq> []" by (simp add: window_doc_def)
  then have "\<not> (\<forall>c\<in>set (page_content d). isspace c)" by (simp add: strip_Nil_iff)
  then show "\<exists>c\<in>set (page_content d). \<not> isspace c" by blast
  then show "page_content d \<noteq> []" by auto
next
  assume a: "cur < end_ix \<and>
    (\<forall>line\<in>set (slice lines cur (min (cur + chunk_max_lines) end_ix)). \<forall>c\<in>set line. isspace c)"
  then have "strip (rstrip (join (slice lines cur (min (cur + chunk_max_lines) end_ix)))) = []"
    by (simp add: blank_content_iff)
  with a show "chunk_loop pth fname lang lines chunk_max_lines cur end_ix docs0 =
      chunk_loop pth fname lang lines chunk_max_lines (min (cur + chunk_max_lines) end_ix) end_ix docs0"
    by (subst chunk_loop.simps) (simp add: Let_def)
next
  assume a: "1 \<le> chunk_max_lines \<and> 0 \<le> start \<and> end_ix \<le> len lines \<and>
    (\<forall>i. start \<le> i \<and> i < end_ix \<longrightarrow> (\<forall>c\<in>set (lines ! nat i). isspace c))"
  have "strip (window_content lines w) = []" if "w \<in> set (windows chunk_max_lines start end_ix)" for w
  proof -
    from that have "(fst w, snd w) \<in> set (windows chunk_max_lines start end_ix)" by simp
    from windows_member [OF this] have b: "start \<le> fst w" "fst w < snd w" "snd w \<le> end_ix" by auto
    with a have "set (slice lines (fst w) (snd w)) = {lines ! nat i | i. fst w \<le> i \<and> i < snd w}"
      by (intro set_slice) auto
    moreover have "\<forall>c\<in>set (lines ! nat i). isspace c" if "fst w \<le> i \<and> i < snd w" for i
    proof -
      from that b have "start \<le> i \<and> i < end_ix" by arith
      with a show ?thesis by blast
    qed
    ultimately have "\<forall>line\<in>set (slice lines (fst w) (snd w)). \<forall>c\<in>set line. isspace c"
      by auto
    then show ?thesis by (simp add: window_content_def blank_content_iff)
  qed
  then have "emitted pth fname lang lines chunk_max_lines (start, end_ix) = []"
    by (simp add: emitted_def filter_empty_conv)
  with a show "chunk_loop pth fname lang lines chunk_max_lines start end_ix docs0 = Some docs0"
    by (simp add: chunk_loop_total)
qed

theorem blank_windows_dropped_witness:
  "create_documents_from_file (py ''n.txt'') (py ''n.txt'') (py ''text'')
     [py ''a\<newline>'', py ''\<newline>'', py ''  \<newline>'', py ''b\<newline>''] 1 =
     Some (Inr
       [\<lparr>page_content = py ''a'', path = py ''n.txt'', filename = py ''n.txt'',
          language = py ''text'', chunk_type = py ''prose'', line_start = 1, line_end = 1\<rparr>,
        \<lparr>page_content = py ''b'', path = py ''n.txt'', filename = py ''n.txt'',
          language = py ''text'', chunk_type = py ''prose'', line_start = 4, line_end = 4\<rparr>]) \<and>
   list_all (\<lambda>d. page_content d \<noteq> [] \<and> (\<exists>c\<in>set (page_content d). \<not> isspace c))
       [\<lparr>page_content = py ''a'', path = py ''n.txt'', filename = py ''n.txt'',
          language = py ''text'', chunk_type = py ''prose'', line_start = 1, line_end = 1\<rparr>,
        \<lparr>page_content = py ''b'', path = py ''n.txt'', filename = py ''n.txt'',
          language = py ''text'', chunk_type = py ''prose'', line_start = 4, line_end = 4\<rparr>] \<and>
   chunk_loop (py ''n.txt'') (py ''n.txt'') (py ''text'')
     [py ''a\<newline>'', py ''\<newline>'', py ''  \<newline>'', py ''b\<newline>''] 1 1 3 [] =
   chunk_loop (py ''n.txt'') (py ''n.txt'') (py ''text'')
     [py ''a\<newline>'', py ''\<newline>'', py ''  \<newline>'', py ''b\<newline>''] 1 (min (1 + 1) 3) 3 [] \<and>
   chunk_loop (py ''n.txt'') (py ''n.txt'') (py ''text'')
     [py ''a\<newline>'', py ''\<newline>'', py ''  \<newline>'', py ''b\<newline>''] 1 1 3 [] = Some []"
proof -
  let ?lines = "[py ''a\<newline>'', py ''\<newline>'', py ''  \<newline>'', py ''b\<newline>'']"
  let ?docs = "[\<lparr>page_content = py ''a'', path = py ''n.txt'', filename = py ''n.txt'',
          language = py ''text'', chunk_type = py ''prose'', line_start = 1, line_end = 1\<rparr>,
        \<lparr>page_content = py ''b'', path = py ''n.txt'', filename = py ''n.txt'',
          language = py ''text'', chunk_type = py ''prose'', line_start = 4, line_end = 4\<rparr>]"
  have ev: "create_documents_from_file (py ''n.txt'') (py ''n.txt'') (py ''text'') ?lines 1 =
      Some (Inr ?docs)"
    by (simp add: eval_defs)
  have h2: "(1::int) < 3 \<and>
      (\<forall>line\<in>set (slice ?lines 1 (min (1 + 1) 3)). \<forall>c\<in>set line. isspace c)"
    by (simp add: eval_defs)
  have blank: "\<forall>c\<in>set (?lines ! nat i). isspace c" if "1 \<le> i \<and> i < 3" for i :: int
  proof -
    from that have "i = 1 \<or> i = 2" by arith
    then show ?thesis by (auto simp: eval_defs)
  qed
  have h3: "(1::int) \<le> 1 \<and> (0::int) \<le> 1 \<and> 3 \<le> len ?lines \<and>
      (\<forall>i. 1 \<le> i \<and> i < 3 \<longrightarrow> (\<forall>c\<in>set (?lines ! nat i). isspace c))"
    using blank by (simp add: len_def)
  from blank_windows_dropped [of "py ''n.txt''" "py ''n.txt''" "py ''text''" ?lines 1 1 3 "[]" 1]
    ev h2 h3
  show ?thesis unfolding list_all_iff by blast
qed

text \<open>
  C4. For a language other than python, javascript and typescript the boundaries are the
  windows \<open>[200 k, min (200 k + 200) n)\<close> for \<open>k = 0, 1, \<dots>\<close> below \<open>n / 200\<close> rounded up,
  whatever the lines hold: the first starts at 0, each starts where the one before ended,
  all but the last hold exactly 200 lines, the last holds between 1 and 200 lines and
  ends at \<open>n = len(lines)\<close>.
\<close>

theorem fallback_fixed_windows:
  assumes "lang \<noteq> py ''python''" "lang \<noteq> py ''javascript''" "lang \<noteq> py ''typescript''"
  shows "\<exists>bs. find_code_block_boundaries lines lang = Inr bs \<and>
           length bs = nat ((len lines + 199) div 200) \<and>
           (\<forall>k<length bs. bs ! k = (200 * int k, min (200 * int k + 200) (len lines))) \<and>
           (\<forall>k. Suc k < length bs \<longrightarrow>
                  snd (bs ! k) - fst (bs ! k) = 200 \<and> snd (bs ! k) = fst (bs ! Suc k)) \<and>
           (bs \<noteq> [] \<longrightarrow> fst (hd bs) = 0 \<and> snd (last bs) = len lines \<and>
                  0 < snd (last bs) - fst (last bs) \<and> snd (last bs) - fst (last bs) \<le> 200) \<and>
           (bs = [] \<longleftrightarrow> lines = [])"
proof -
  let ?n = "len lines"
  let ?c = "nat ((?n + 199) div 200)"
  let ?bs = "map (\<lambda>k. (200 * int k, min (200 * int k + 200) ?n)) [0..<?c]"
  have n0: "0 \<le> ?n" by (simp add: len_def)
  from assms have "language_pattern lang = None" by (simp add: language_pattern_def)
  then have eq: "find_code_block_boundaries lines lang = Inr ?bs"
    using fixed_blocks_eq [of 0 ?n] by (simp add: fcbb_fallback)
  have len: "length ?bs = ?c" by simp
  have nth: "\<forall>k<length ?bs. ?bs ! k = (200 * int k, min (200 * int k + 200) ?n)" by simp
  have inner: "\<forall>k. Suc k < length ?bs \<longrightarrow>
      snd (?bs ! k) - fst (?bs ! k) = 200 \<and> snd (?bs ! k) = fst (?bs ! Suc k)"
  proof (intro allI impI)
    fix k assume "Suc k < length ?bs"
    then have k: "Suc k < ?c" by simp
    then have "int k + 1 < (?n + 199) div 200" by linarith
    then have "200 * int k + 200 \<le> ?n" by linarith
    with k show "snd (?bs ! k) - fst (?bs ! k) = 200 \<and> snd (?bs ! k) = fst (?bs ! Suc k)"
      by simp
  qed
  have lastp: "?bs \<noteq> [] \<longrightarrow> fst (hd ?bs) = 0 \<and> snd (last ?bs) = ?n \<and>
      0 < snd (last ?bs) - fst (last ?bs) \<and> snd (last ?bs) - fst (last ?bs) \<le> 200"
  proof
    assume ne: "?bs \<noteq> []"
    then have c: "0 < ?c" by simp
    then have l: "last ?bs = ?bs ! (?c - 1)" using ne by (simp add: last_conv_nth)
    have h: "hd ?bs = ?bs ! 0" using ne by (simp add: hd_conv_nth)
    have b1: "200 * int (?c - 1) < ?n" using c by linarith
    have b2: "?n \<le> 200 * int (?c - 1) + 200" using c by linarith
    from c b1 b2 show "fst (hd ?bs) = 0 \<and> snd (last ?bs) = ?n \<and>
      0 < snd (last ?bs) - fst (last ?bs) \<and> snd (last ?bs) - fst (last ?bs) \<le> 200"
      unfolding l h by simp
  qed
  have emp: "?bs = [] \<longleftrightarrow> lines = []"
  proof -
    have "?c = 0 \<longleftrightarrow> ?n = 0" using n0 by linarith
    then show ?thesis by (simp add: len_def)
  qed
  from eq len nth inner lastp emp show ?thesis by blast
qed

theorem fallback_fixed_windows_witness:
  "find_code_block_boundaries (replicate 401 (py ''x\<newline>'')) (py ''text'') =
     Inr [(0, 200), (200, 400), (400, 401)] \<and>
   (\<exists>bs. find_code_block_boundaries (replicate 401 (py ''x\<newline>'')) (py ''text'') = Inr bs \<and>
         length bs = nat ((len (replicate 401 (py ''x\<newline>'')) + 199) div 200) \<and>
         (\<forall>k<length bs. bs ! k =
            (200 * int k, min (200 * int k + 200) (len (replicate 401 (py ''x\<newline>''))))) \<and>
         (\<forall>k. Suc k < length bs \<longrightarrow>
                snd (bs ! k) - fst (bs ! k) = 200 \<and> snd (bs ! k) = fst (bs ! Suc k)) \<and>
         (bs \<noteq> [] \<longrightarrow> fst (hd bs) = 0 \<and> snd (last bs) = len (replicate 401 (py ''x\<newline>'')) \<and>
                0 < snd (last bs) - fst (last bs) \<and> snd (last bs) - fst (last bs) \<le> 200) \<and>
         (bs = [] \<longleftrightarrow> replicate 401 (py ''x\<newline>'') = []))"
proof -
  have ev: "find_code_block_boundaries (replicate 401 (py ''x\<newline>'')) (py ''text'') =
      Inr [(0, 200), (200, 400), (400, 401)]"
    by (simp add: find_code_block_boundaries_def language_pattern_def py_def len_def
        fixed_blocks.simps)
  have h: "py ''text'' \<noteq> py ''python''" "py ''text'' \<noteq> py ''javascript''"
    "py ''text'' \<noteq> py ''typescript''"
    by (simp_all add: py_def)
  from fallback_fixed_windows [OF h, of "replicate 401 (py ''x\<newline>'')"] ev
  show ?thesis by blast
qed

text \<open>
  C5, as the code has it. In a python, javascript or typescript file in which no
  left-stripped line matches the pattern of the language, the only boundary is
  \<open>(0, len(lines))\<close>. Chunk production returns exactly one document, for lines 1 to
  \<open>len(lines)\<close>, when the file has at least one line, at most \<open>chunk_max_lines\<close> lines,
  and a character that is not white space.
\<close>

theorem no_definitions_single_block:
  assumes "lang = py ''python'' \<or> lang = py ''javascript'' \<or> lang = py ''typescript''"
    and "\<forall>line\<in>set lines.
           \<not> (if lang = py ''python'' then python_pattern else js_pattern) (lstrip line)"
  shows "find_code_block_boundaries lines lang = Inr [(0, len lines)] \<and>
         (1 \<le> len lines \<and> len lines \<le> chunk_max_lines \<and>
          (\<exists>line\<in>set lines. \<exists>c\<in>set line. \<not> isspace c) \<longrightarrow>
            create_documents_from_file pth fname lang lines chunk_max_lines =
              Some (Inr [\<lparr>page_content = rstrip (join lines), path = pth, filename = fname,
                           language = lang, chunk_type = chunk_type_of lang,
                           line_start = 1, line_end = len lines\<rparr>]))"
proof (intro conjI impI)
  let ?p = "if lang = py ''python'' then python_pattern else js_pattern"
  from assms(1) have p: "language_pattern lang = Some ?p"
    by (auto simp: language_pattern_def)
  from assms(2) have "find_indices ?p 0 lines = []" by (simp add: find_indices_Nil_iff)
  with p show b: "find_code_block_boundaries lines lang = Inr [(0, len lines)]"
    by (rule fcbb_single)
  assume a: "1 \<le> len lines \<and> len lines \<le> chunk_max_lines \<and>
          (\<exists>line\<in>set lines. \<exists>c\<in>set line. \<not> isspace c)"
  then have m: "1 \<le> chunk_max_lines" by simp
  have w: "windows chunk_max_lines 0 (len lines) = [(0, len lines)]"
    using a by (simp add: windows_unfold windows_Nil)
  have nb: "strip (window_content lines (0, len lines)) \<noteq> []"
    using a by (simp add: window_content_def slice_whole blank_content_iff)
  have "emitted pth fname lang lines chunk_max_lines (0, len lines) =
      [\<lparr>page_content = rstrip (join lines), path = pth, filename = fname,
        language = lang, chunk_type = chunk_type_of lang,
        line_start = 1, line_end = len lines\<rparr>]"
    using w nb by (simp add: emitted_def window_doc_def window_content_def slice_whole)
  with create_documents_total [OF m b, of pth fname]
  show "create_documents_from_file pth fname lang lines chunk_max_lines =
              Some (Inr [\<lparr>page_content = rstrip (join lines), path = pth, filename = fname,
                           language = lang, chunk_type = chunk_type_of lang,
                           line_start = 1, line_end = len lines\<rparr>])"
    by simp
qed

theorem no_definitions_single_block_witness:
  "find_code_block_boundaries [py ''import os\<newline>'', py ''x = 1\<newline>''] (py ''python'') =
     Inr [(0, len [py ''import os\<newline>'', py ''x = 1\<newline>''])] \<and>
   create_documents_from_file (py ''c.py'') (py ''c.py'') (py ''python'')
     [py ''import os\<newline>'', py ''x = 1\<newline>''] 400 =
     Some (Inr [\<lparr>page_content = rstrip (join [py ''import os\<newline>'', py ''x = 1\<newline>'']),
                  path = py ''c.py'', filename = py ''c.py'', language = py ''python'',
                  chunk_type = chunk_type_of (py ''python''), line_start = 1,
                  line_end = len [py ''import os\<newline>'', py ''x = 1\<newline>'']\<rparr>]) \<and>
   rstrip (join [py ''import os\<newline>'', py ''x = 1\<newline>'']) = py ''import os\<newline>x = 1'' \<and>
   len [py ''import os\<newline>'', py ''x = 1\<newline>''] = 2"
proof -
  let ?lines = "[py ''import os\<newline>'', py ''x = 1\<newline>'']"
  have h1: "py ''python'' = py ''python'' \<or> py ''python'' = py ''javascript'' \<or>
      py ''python'' = py ''typescript''" by simp
  have h2: "\<forall>line\<in>set ?lines.
      \<not> (if py ''python'' = py ''python'' then python_pattern else js_pattern) (lstrip line)"
    by (simp add: eval_defs)
  have h3: "1 \<le> len ?lines \<and> len ?lines \<le> 400 \<and>
      (\<exists>line\<in>set ?lines. \<exists>c\<in>set line. \<not> isspace c)"
    by (simp add: eval_defs)
  have e: "rstrip (join ?lines) = py ''import os\<newline>x = 1''" "len ?lines = 2"
    by (simp_all add: eval_defs)
  from no_definitions_single_block [OF h1 h2, of 400 "py ''c.py''" "py ''c.py''"] h3 e
  show ?thesis by blast
qed

theorem no_definitions_one_chunk_counterexample:
  "find_indices python_pattern 0 [py ''\<newline>''] = [] \<and>
   find_code_block_boundaries [py ''\<newline>''] (py ''python'') = Inr [(0, 1)] \<and>
   create_documents_from_file (py ''b.py'') (py ''b.py'') (py ''python'') [py ''\<newline>''] 400 =
     Some (Inr []) \<and>
   find_indices python_pattern 0 (replicate 401 (py ''x = 1\<newline>'')) = [] \<and>
   find_code_block_boundaries (replicate 401 (py ''x = 1\<newline>'')) (py ''python'') = Inr [(0, 401)] \<and>
   create_documents_from_file (py ''c.py'') (py ''c.py'') (py ''python'')
     (replicate 401 (py ''x = 1\<newline>'')) 400 =
     Some (Inr [window_doc (py ''c.py'') (py ''c.py'') (py ''python'')
                  (replicate 401 (py ''x = 1\<newline>'')) (0, 400),
                window_doc (py ''c.py'') (py ''c.py'') (py ''python'')
                  (replicate 401 (py ''x = 1\<newline>'')) (400, 401)])"
proof -
  let ?big = "replicate 401 (py ''x = 1\<newline>'')"
  have a1: "find_indices python_pattern 0 [py ''\<newline>''] = []"
    by (simp add: eval_defs)
  have a2: "find_code_block_boundaries [py ''\<newline>''] (py ''python'') = Inr [(0, 1)]"
    by (simp add: eval_defs)
  have a3: "create_documents_from_file (py ''b.py'') (py ''b.py'') (py ''python'') [py ''\<newline>''] 400 =
     Some (Inr [])"
    by (simp add: eval_defs)
  have b1: "find_indices python_pattern 0 ?big = []"
    by (simp add: find_indices_Nil_iff eval_defs)
  have p: "language_pattern (py ''python'') = Some python_pattern"
    by (simp add: language_pattern_def)
  have b2: "find_code_block_boundaries ?big (py ''python'') = Inr [(0, 401)]"
    using fcbb_single [OF p b1] by (simp add: len_def)
  have w: "windows 400 0 401 = [(0, 400), (400, 401)]"
    by (simp add: windows.simps)
  have s1: "slice ?big 0 400 = replicate 400 (py ''x = 1\<newline>'')"
    by (simp add: slice_def len_def)
  have s2: "slice ?big 400 401 = [py ''x = 1\<newline>'']"
    by (simp add: slice_def len_def)
  have n1: "strip (window_content ?big (0, 400)) \<noteq> []"
    unfolding window_content_def fst_conv snd_conv s1 blank_content_iff
    by (simp add: py_def isspace_def)
  have n2: "strip (window_content ?big (400, 401)) \<noteq> []"
    unfolding window_content_def fst_conv snd_conv s2 blank_content_iff
    by (simp add: py_def isspace_def)
  have "emitted (py ''c.py'') (py ''c.py'') (py ''python'') ?big 400 (0, 401) =
      [window_doc (py ''c.py'') (py ''c.py'') (py ''python'') ?big (0, 400),
       window_doc (py ''c.py'') (py ''c.py'') (py ''python'') ?big (400, 401)]"
    using n1 n2 by (simp add: emitted_def w)
  with create_documents_total [OF _ b2, of 400 "py ''c.py''" "py ''c.py''"]
  have b3: "create_documents_from_file (py ''c.py'') (py ''c.py'') (py ''python'') ?big 400 =
     Some (Inr [window_doc (py ''c.py'') (py ''c.py'') (py ''python'') ?big (0, 400),
                window_doc (py ''c.py'') (py ''c.py'') (py ''python'') ?big (400, 401)])"
    by simp
  from a1 a2 a3 b1 b2 b3 show ?thesis by blast
qed

lemma prefix_not_blank:
  assumes "startswith (lstrip line) p" "p \<noteq> []"
  shows "\<exists>c\<in>set line. \<not> isspace c"
proof -
  from assms have "lstrip line \<noteq> []" by (auto simp: startswith_def)
  then show ?thesis by (auto simp: lstrip_def dropWhile_eq_Nil_conv)
qed

lemma decorator_not_blank: "is_decorator line \<Longrightarrow> \<exists>c\<in>set line. \<not> isspace c"
  using prefix_not_blank [of line "py ''@''"] by (simp add: is_decorator_def py_def)

lemma python_start_not_blank: "python_pattern (lstrip line) \<Longrightarrow> \<exists>c\<in>set line. \<not> isspace c"
  using prefix_not_blank [of line "py ''def ''"] prefix_not_blank [of line "py ''class ''"]
  by (auto simp: python_pattern_def py_def)

lemma first_window_emitted:
  assumes "1 \<le> m" "0 \<le> s" "s < e" "e \<le> len lines" "\<exists>c\<in>set (lines ! nat s). \<not> isspace c"
  shows "window_doc pth fname lang lines (s, min (s + m) e) \<in> set (emitted pth fname lang lines m (s, e))"
proof -
  let ?b = "min (s + m) e"
  have r: "s < ?b" "?b \<le> len lines" using assms by auto
  have "set (slice lines s ?b) = {lines ! nat i | i. s \<le> i \<and> i < ?b}"
    using assms(2) r by (intro set_slice) auto
  with r(1) have "lines ! nat s \<in> set (slice lines s ?b)" by auto
  with assms(5) have "strip (window_content lines (s, ?b)) \<noteq> []"
    by (auto simp: window_content_def blank_content_iff)
  then show ?thesis using assms(1,3) by (simp add: emitted_unfold)
qed

text \<open>
  C2. In a python file, take any line \<open>k\<close> that is a detected start. The boundaries hold a
  block \<open>(s, e)\<close> with \<open>s \<le> k < e\<close> whose start has been moved back over decorator lines
  only (every line from \<open>s\<close> to \<open>k - 1\<close> is a decorator line) and as far as possible
  (\<open>s\<close> is 0 or the line above \<open>s\<close> is not a decorator line). For
  \<open>chunk_max_lines \<ge> 1\<close> chunk production returns the document of the first window
  of that block: it starts at line \<open>s + 1\<close>, ends at line
  \<open>min (s + chunk_max_lines) e\<close>, holds the right-stripped text of those lines, and
  reaches the definition line \<open>k + 1\<close> whenever the decorator run is shorter than
  \<open>chunk_max_lines\<close>.
\<close>

theorem decorators_attached:
  assumes "k < length lines" "python_pattern (lstrip (lines ! k))"
  shows "\<exists>bs s e. find_code_block_boundaries lines (py ''python'') = Inr bs \<and>
           (s, e) \<in> set bs \<and> 0 \<le> s \<and> s \<le> int k \<and> int k < e \<and>
           (\<forall>j. s \<le> j \<and> j < int k \<longrightarrow> is_decorator (lines ! nat j)) \<and>
           (0 < s \<longrightarrow> \<not> is_decorator (lines ! nat (s - 1))) \<and>
           (\<forall>chunk_max_lines pth fname. 1 \<le> chunk_max_lines \<longrightarrow>
              (\<exists>docs d. create_documents_from_file pth fname (py ''python'') lines chunk_max_lines =
                         Some (Inr docs) \<and>
                      d \<in> set docs \<and> line_start d = s + 1 \<and>
                      line_end d = min (s + chunk_max_lines) e \<and>
                      page_content d = rstrip (join (slice lines s (min (s + chunk_max_lines) e))) \<and>
                      (int k - s < chunk_max_lines \<longrightarrow> int k + 1 \<le> line_end d)))"
proof -
  let ?py = "py ''python''"
  let ?idx = "find_indices python_pattern 0 lines"
  let ?s = "block_start lines ?py (int k)"
  have p: "language_pattern ?py = Some python_pattern" by (simp add: language_pattern_def)
  have mem: "int k \<in> set ?idx" using assms by (rule find_indices_mem)
  then have ne: "?idx \<noteq> []" by auto
  from mem obtain q where q: "q < length ?idx" "?idx ! q = int k"
    by (auto simp: in_set_conv_nth)
  let ?e = "if Suc q < length ?idx then ?idx ! Suc q else len lines"
  have kn: "0 \<le> int k" "int k < len lines" using assms(1) by (simp_all add: len_def)
  have bq: "blocks_of lines ?py ?idx ! q = (?s, ?e)"
    using blocks_of_nth [OF q(1), of lines ?py] q(2) by simp
  have inb: "(?s, ?e) \<in> set (blocks_of lines ?py ?idx)"
    using bq q(1) by (metis blocks_of_length nth_mem)
  obtain bs where bs: "find_code_block_boundaries lines ?py = Inr bs"
    and sub: "set (blocks_of lines ?py ?idx) \<subseteq> set bs"
    using fcbb_blocks [OF p ne] by (auto split: if_splits)
  from sub inb have in_bs: "(?s, ?e) \<in> set bs" by blast
  have e_gt: "int k < ?e"
  proof (cases "Suc q < length ?idx")
    case True
    have "sorted_wrt (<) ?idx" by (rule find_indices_sorted)
    with True q(1) have "?idx ! q < ?idx ! Suc q"
      by (simp add: sorted_wrt_iff_nth_less)
    with True q(2) show ?thesis by simp
  next
    case False
    with kn show ?thesis by simp
  qed
  from fcbb_bounds [OF bs in_bs] have e_le: "?e \<le> len lines" by simp
  note sp = block_start_python [OF kn]
  have line_s: "\<exists>c\<in>set (lines ! nat ?s). \<not> isspace c"
  proof (cases "?s = int k")
    case True
    with assms(2) show ?thesis by (simp add: python_start_not_blank)
  next
    case False
    with sp have "?s \<le> ?s \<and> ?s < int k" by simp
    with sp have "is_decorator (lines ! nat ?s)" by blast
    then show ?thesis by (rule decorator_not_blank)
  qed
  have chunk: "\<exists>docs d. create_documents_from_file pth fname ?py lines m = Some (Inr docs) \<and>
      d \<in> set docs \<and> line_start d = ?s + 1 \<and> line_end d = min (?s + m) ?e \<and>
      page_content d = rstrip (join (slice lines ?s (min (?s + m) ?e))) \<and>
      (int k - ?s < m \<longrightarrow> int k + 1 \<le> line_end d)" if m: "1 \<le> m" for m pth fname
  proof -
    let ?d = "window_doc pth fname ?py lines (?s, min (?s + m) ?e)"
    have s_lt: "?s < ?e" using sp e_gt by simp
    have "?d \<in> set (emitted pth fname ?py lines m (?s, ?e))"
      using m _ s_lt e_le line_s by (rule first_window_emitted) (use sp in simp)
    with in_bs have "?d \<in> set (concat (map (emitted pth fname ?py lines m) bs))" by auto
    moreover have "line_start ?d = ?s + 1" "line_end ?d = min (?s + m) ?e"
      "page_content ?d = rstrip (join (slice lines ?s (min (?s + m) ?e)))"
      by (simp_all add: window_doc_def window_content_def)
    moreover have "int k - ?s < m \<longrightarrow> int k + 1 \<le> line_end ?d"
      using e_gt by (simp add: window_doc_def)
    ultimately show ?thesis using create_documents_total [OF m bs, of pth fname] by blast
  qed
  from bs in_bs sp e_gt chunk show ?thesis by blast
qed

theorem decorators_attached_witness:
  "find_code_block_boundaries [py ''@deco\<newline>'', py ''def f():\<newline>'', py ''    pass\<newline>'']
     (py ''python'') = Inr [(0, 3)] \<and>
   create_documents_from_file (py ''d.py'') (py ''d.py'') (py ''python'')
     [py ''@deco\<newline>'', py ''def f():\<newline>'', py ''    pass\<newline>''] 400 =
     Some (Inr [\<lparr>page_content = py ''@deco\<newline>def f():\<newline>    pass'', path = py ''d.py'',
                  filename = py ''d.py'', language = py ''python'', chunk_type = py ''code'',
                  line_start = 1, line_end = 3\<rparr>]) \<and>
   (\<exists>bs s e. find_code_block_boundaries [py ''@deco\<newline>'', py ''def f():\<newline>'', py ''    pass\<newline>'']
        (py ''python'') = Inr bs \<and>
      (s, e) \<in> set bs \<and> 0 \<le> s \<and> s \<le> int 1 \<and> int 1 < e \<and>
      (\<forall>j. s \<le> j \<and> j < int 1 \<longrightarrow>
         is_decorator ([py ''@deco\<newline>'', py ''def f():\<newline>'', py ''    pass\<newline>''] ! nat j)) \<and>
      (0 < s \<longrightarrow>
         \<not> is_decorator ([py ''@deco\<newline>'', py ''def f():\<newline>'', py ''    pass\<newline>''] ! nat (s - 1))) \<and>
      (\<forall>chunk_max_lines pth fname. 1 \<le> chunk_max_lines \<longrightarrow>
         (\<exists>docs d. create_documents_from_file pth fname (py ''python'')
                   [py ''@deco\<newline>'', py ''def f():\<newline>'', py ''    pass\<newline>''] chunk_max_lines =
                   Some (Inr docs) \<and>
                 d \<in> set docs \<and> line_start d = s + 1 \<and>
                 line_end d = min (s + chunk_max_lines) e \<and>
                 page_content d =
                   rstrip (join (slice [py ''@deco\<newline>'', py ''def f():\<newline>'', py ''    pass\<newline>'']
                                   s (min (s + chunk_max_lines) e))) \<and>
                 (int 1 - s < chunk_max_lines \<longrightarrow> int 1 + 1 \<le> line_end d))))"
proof -
  let ?lines = "[py ''@deco\<newline>'', py ''def f():\<newline>'', py ''    pass\<newline>'']"
  have b: "find_code_block_boundaries ?lines (py ''python'') = Inr [(0, 3)]"
    by (simp add: eval_defs)
  have ev: "create_documents_from_file (py ''d.py'') (py ''d.py'') (py ''python'') ?lines 400 =
     Some (Inr [\<lparr>page_content = py ''@deco\<newline>def f():\<newline>    pass'', path = py ''d.py'',
                  filename = py ''d.py'', language = py ''python'', chunk_type = py ''code'',
                  line_start = 1, line_end = 3\<rparr>])"
    by (simp add: eval_defs)
  have h1: "1 < length ?lines" by simp
  have h2: "python_pattern (lstrip (?lines ! 1))" by (simp add: eval_defs)
  from decorators_attached [OF h1 h2] b ev show ?thesis by blast
qed

text \<open>
  C1. The claim fails in the code for python: the block of a decorated definition starts at
  its first decorator line, and the block before it still ends at the \<^verbatim>\<open>def\<close> line, so
  the decorator lines lie in both. Here line index 1 is in \<open>(0, 2)\<close> and in \<open>(1, 3)\<close>, and
  line 2 of the file is in both returned documents.
\<close>

theorem decorated_blocks_overlap:
  "find_code_block_boundaries [py ''def a():\<newline>'', py ''@deco\<newline>'', py ''def b():\<newline>'']
     (py ''python'') = Inr [(0, 2), (1, 3)] \<and>
   create_documents_from_file (py ''o.py'') (py ''o.py'') (py ''python'')
     [py ''def a():\<newline>'', py ''@deco\<newline>'', py ''def b():\<newline>''] 400 =
     Some (Inr [\<lparr>page_content = py ''def a():\<newline>@deco'', path = py ''o.py'',
                  filename = py ''o.py'', language = py ''python'', chunk_type = py ''code'',
                  line_start = 1, line_end = 2\<rparr>,
                \<lparr>page_content = py ''@deco\<newline>def b():'', path = py ''o.py'',
                  filename = py ''o.py'', language = py ''python'', chunk_type = py ''code'',
                  line_start = 2, line_end = 3\<rparr>])"
  by (simp add: eval_defs)

text \<open>
  C3. The claim fails in the code for the tag \<open>ini\<close>, which the classifier gives to
  \<^verbatim>\<open>.ini\<close> and \<^verbatim>\<open>.cfg\<close> files: the tuple of prose tags holds markdown, text, json,
  toml and yaml but not ini, so the document of an ini file has chunk type \<open>code\<close>.
\<close>

theorem ini_chunk_type_is_code:
  "detect_language_from_ext (py ''.ini'') = py ''ini'' \<and>
   detect_language_from_ext (py ''.cfg'') = py ''ini'' \<and>
   chunk_type_of (py ''ini'') = py ''code'' \<and>
   create_documents_from_file (py ''setup.cfg'') (py ''setup.cfg'') (py ''ini'')
     [py ''[metadata]\<newline>'', py ''name = demo\<newline>''] 400 =
     Some (Inr [\<lparr>page_content = py ''[metadata]\<newline>name = demo'', path = py ''setup.cfg'',
                  filename = py ''setup.cfg'', language = py ''ini'', chunk_type = py ''code'',
                  line_start = 1, line_end = 2\<rparr>])"
  by (simp add: eval_defs detect_language_from_ext_def EXT_LANG_MAP_def)

end
